theory Spec2Isabelle
  imports Main "HOL-Library.Word" "HOL-Library.Monad_Syntax"
begin

unbundle bit_operations_syntax

section \<open>Bytes, strings and protocol constants\<close>

text \<open>
  A Go \<^verbatim>\<open>byte\<close> is an 8-bit word and a Go \<^verbatim>\<open>uint16\<close> a 16-bit word. A Go
  \<^verbatim>\<open>string\<close> is an immutable sequence of bytes, so \<^verbatim>\<open>string(b)\<close> and
  \<^verbatim>\<open>[]byte(s)\<close> are the identity on the byte sequence; the nil slice is the empty
  list. \<open>ascii\<close> writes a string literal as its bytes.
\<close>

type_synonym byte = "8 word"
type_synonym uint16 = "16 word"
type_synonym gostring = "byte list"

definition ascii :: "string \<Rightarrow> gostring" where
  "ascii s = map (\<lambda>c. of_nat (of_char c)) s"

definition socks5Version :: byte where "socks5Version = 0x05"
definition noAuth :: byte where "noAuth = 0x00"
definition connectCmd :: byte where "connectCmd = 0x01"
definition udpAssociate :: byte where "udpAssociate = 0x03"
definition ipv4Address :: byte where "ipv4Address = 0x01"
definition domainName :: byte where "domainName = 0x03"
definition ipv6Address :: byte where "ipv6Address = 0x04"

subsection \<open>encoding/binary, big endian\<close>

definition Uint16 :: "byte list \<Rightarrow> uint16" where
  "Uint16 b = (ucast (b ! 1) :: uint16) OR push_bit 8 (ucast (b ! 0) :: uint16)"

definition PutUint16 :: "uint16 \<Rightarrow> byte list" where
  "PutUint16 v = [ucast (drop_bit 8 v), ucast v]"

subsection \<open>Decimal text (the \<^verbatim>\<open>%d\<close> verb and the octets of a dotted address)\<close>

definition digit :: "nat \<Rightarrow> byte" where
  "digit d = of_nat (48 + d)"

fun decimal :: "nat \<Rightarrow> gostring" where
  "decimal n = (if n < 10 then [digit n] else decimal (n div 10) @ [digit (n mod 10)])"

declare decimal.simps [simp del]

section \<open>IP addresses as text: \<^verbatim>\<open>net.IP.String\<close>\<close>

text \<open>
  \<^verbatim>\<open>net.IP\<close> is a byte slice of length 4 or 16. The functions of this section
  model the Go standard library (packages \<^verbatim>\<open>net\<close> and \<^verbatim>\<open>net/netip\<close>), which
  the relay calls to turn the address bytes of a request into the host part of a dial
  target and back.
\<close>

definition v4InV6Prefix :: "byte list" where
  "v4InV6Prefix = replicate 10 0 @ [0xff, 0xff]"

text \<open>\<^verbatim>\<open>ip.To4()\<close>: the 4-byte form of an IPv4 or IPv4-mapped address, else nil.\<close>

definition To4 :: "byte list \<Rightarrow> byte list" where
  "To4 ip =
     (if length ip = 4 then ip
      else if length ip = 16 \<and> take 10 ip = replicate 10 0 \<and> ip ! 10 = 0xff \<and> ip ! 11 = 0xff
      then drop 12 ip
      else [])"

text \<open>\<^verbatim>\<open>ip.To16()\<close>: the 16-byte form, an IPv4 address as IPv4-mapped; else nil.\<close>

definition To16 :: "byte list \<Rightarrow> byte list" where
  "To16 ip =
     (if length ip = 4 then v4InV6Prefix @ ip
      else if length ip = 16 then ip
      else [])"

definition hexdigit :: "nat \<Rightarrow> byte" where
  "hexdigit d = (if d < 10 then of_nat (48 + d) else of_nat (87 + d))"

text \<open>\<^verbatim>\<open>hexString\<close>: two lower-case hex digits per byte.\<close>

definition hexString :: "byte list \<Rightarrow> gostring" where
  "hexString b = concat (map (\<lambda>x. [hexdigit (unat x div 16), hexdigit (unat x mod 16)]) b)"

text \<open>Dotted decimal, for a 4-byte address.\<close>

definition string4 :: "byte list \<Rightarrow> gostring" where
  "string4 ip =
     decimal (unat (ip ! 0)) @ ascii ''.'' @ decimal (unat (ip ! 1)) @ ascii ''.'' @
     decimal (unat (ip ! 2)) @ ascii ''.'' @ decimal (unat (ip ! 3))"

text \<open>The \<open>i\<close>-th 16-bit group of a 16-byte address, as a number below 65536.\<close>

definition v6u16 :: "byte list \<Rightarrow> nat \<Rightarrow> nat" where
  "v6u16 ip i = 256 * unat (ip ! (2 * i)) + unat (ip ! (2 * i + 1))"

definition groups :: "byte list \<Rightarrow> nat list" where
  "groups ip = map (v6u16 ip) [0..<8]"

text \<open>\<^verbatim>\<open>appendHex\<close>: a group in lower-case hex without leading zeros.\<close>

definition appendHex :: "nat \<Rightarrow> gostring" where
  "appendHex x =
     (if 0x1000 \<le> x then [hexdigit (x div 4096)] else []) @
     (if 0x100 \<le> x then [hexdigit (x div 256 mod 16)] else []) @
     (if 0x10 \<le> x then [hexdigit (x div 16 mod 16)] else []) @
     [hexdigit (x mod 16)]"

text \<open>The number of zero groups at the head of a list of groups.\<close>

fun zero_run :: "nat list \<Rightarrow> nat" where
  "zero_run [] = 0"
| "zero_run (g # gs) = (if g = 0 then Suc (zero_run gs) else 0)"

text \<open>
  The search for the groups that \<open>::\<close> replaces: for each start \<open>i\<close> from the left,
  the run of zero groups from \<open>i\<close> to \<open>j\<close> becomes the choice \<open>(zeroStart, zeroEnd)\<close>
  when it has at least two groups and is longer than the choice so far. The search starts
  from \<open>(255, 255)\<close>, which stands for no run.
\<close>

function find_zeros :: "nat list \<Rightarrow> nat \<Rightarrow> nat \<times> nat \<Rightarrow> nat \<times> nat" where
  "find_zeros gs i best =
     (if i < length gs then
        (let l = zero_run (drop i gs) in
         find_zeros gs (Suc i) (if 2 \<le> l \<and> snd best - fst best < l then (i, i + l) else best))
      else best)"
  by pat_completeness auto
termination
  by (relation "measure (\<lambda>(gs, i, best). length gs - i)") auto

declare find_zeros.simps [simp del]

text \<open>
  What the search may return for the groups \<open>gs\<close>: no run, or the bounds of a run of
  at least two zero groups inside \<open>gs\<close>.
\<close>

definition span_ok :: "nat list \<Rightarrow> nat \<times> nat \<Rightarrow> bool" where
  "span_ok gs z =
     (z = (255, 255) \<or>
      (fst z + 2 \<le> snd z \<and> snd z \<le> length gs \<and>
       take (snd z - fst z) (drop (fst z) gs) = replicate (snd z - fst z) 0))"

text \<open>Groups in hex, separated by colons.\<close>

fun join6 :: "nat list \<Rightarrow> gostring" where
  "join6 [] = []"
| "join6 [g] = appendHex g"
| "join6 (g # h # gs) = appendHex g @ ascii '':'' @ join6 (h # gs)"

text \<open>The text of a 16-byte address that is not IPv4-mapped.\<close>

definition string6 :: "byte list \<Rightarrow> gostring" where
  "string6 ip =
     (let gs = groups ip; z = find_zeros gs 0 (255, 255) in
      if fst z = 255 then join6 gs
      else join6 (take (fst z) gs) @ ascii ''::'' @ join6 (drop (snd z) gs))"

text \<open>\<^verbatim>\<open>net.IP(b).String()\<close>.\<close>

definition ip_String :: "byte list \<Rightarrow> gostring" where
  "ip_String ip =
     (if length ip = 0 then ascii ''<nil>''
      else if length ip \<noteq> 4 \<and> length ip \<noteq> 16 then ascii ''?'' @ hexString ip
      else if length (To4 ip) = 4 then string4 (To4 ip)
      else string6 ip)"

section \<open>Text as IP addresses: \<^verbatim>\<open>net.ParseIP\<close>\<close>

text \<open>
  The parser for dotted decimal (\<^verbatim>\<open>parseIPv4Fields\<close>): a loop over the characters
  with the value \<open>val\<close> and the number of digits \<open>digLen\<close> of the current octet and the
  octets \<open>fields\<close> read so far. It refuses an octet with a leading zero or above 255, an
  empty octet, a character that is neither a digit nor a dot, and any number of octets
  other than four.
\<close>

fun parse4 :: "byte list \<Rightarrow> nat \<Rightarrow> nat \<Rightarrow> byte list \<Rightarrow> byte list option" where
  "parse4 [] val digLen fields =
     (if length fields < 3 then None else Some (fields @ [of_nat val]))"
| "parse4 (c # s) val digLen fields =
     (if 0x30 \<le> c \<and> c \<le> 0x39 then
        (if digLen = 1 \<and> val = 0 then None
         else (let val' = val * 10 + (unat c - 48) in
               if 255 < val' then None else parse4 s val' (Suc digLen) fields))
      else if c = 0x2E then
        (if digLen = 0 \<or> s = [] then None
         else if length fields = 3 then None
         else parse4 s 0 0 (fields @ [of_nat val]))
      else None)"

text \<open>The value of a hex digit, in either case.\<close>

definition hexval :: "byte \<Rightarrow> nat option" where
  "hexval c =
     (if 0x30 \<le> c \<and> c \<le> 0x39 then Some (unat c - 48)
      else if 0x61 \<le> c \<and> c \<le> 0x66 then Some (unat c - 87)
      else if 0x41 \<le> c \<and> c \<le> 0x46 then Some (unat c - 55)
      else None)"

text \<open>
  The hex digits at the head of a text: their value \<open>acc\<close>, their number \<open>off\<close> and the
  text behind them. More than four digits are refused.
\<close>

fun hexfield :: "byte list \<Rightarrow> nat \<Rightarrow> nat \<Rightarrow> (nat \<times> nat \<times> byte list) option" where
  "hexfield [] off acc = Some (acc, off, [])"
| "hexfield (c # s) off acc =
     (case hexval c of
        None \<Rightarrow> Some (acc, off, c # s)
      | Some v \<Rightarrow>
          (let acc' = acc * 16 + v in
           if 3 < off then None
           else if 65535 < acc' then None
           else hexfield s (Suc off) acc'))"

text \<open>The two bytes of a 16-bit group, high byte first.\<close>

definition group_bytes :: "nat \<Rightarrow> byte list" where
  "group_bytes x = [of_nat (x div 256), of_nat x]"

text \<open>
  The loop of \<^verbatim>\<open>parseIPv6\<close> over the colon-separated groups. \<open>ip\<close> holds the bytes
  parsed so far (the index \<^verbatim>\<open>i\<close> of the source is its length) and \<open>ellipsis\<close> the
  position of \<open>::\<close> if one was seen. A group followed by a dot starts a dotted-decimal
  tail. The result is the state when the loop is left, or \<open>None\<close> for a refused text.
\<close>

function parse6_loop ::
  "byte list \<Rightarrow> byte list \<Rightarrow> nat option \<Rightarrow> (byte list \<times> nat option \<times> byte list) option" where
  "parse6_loop s ip ellipsis =
     (if length ip < 16 then
        (case hexfield s 0 0 of
           None \<Rightarrow> None
         | Some (acc, off, s') \<Rightarrow>
             if off = 0 then None
             else if s' \<noteq> [] \<and> hd s' = 0x2E then
               (if ellipsis = None \<and> length ip \<noteq> 12 then None
                else if 16 < length ip + 4 then None
                else (case parse4 s 0 0 [] of
                        None \<Rightarrow> None
                      | Some f \<Rightarrow> Some (ip @ f, ellipsis, [])))
             else
               (let ip' = ip @ group_bytes acc in
                if s' = [] then Some (ip', ellipsis, [])
                else if hd s' \<noteq> 0x3A then None
                else if length s' = 1 then None
                else (let s2 = tl s' in
                      if hd s2 = 0x3A then
                        (if ellipsis \<noteq> None then None
                         else (let s3 = tl s2 in
                               if s3 = [] then Some (ip', Some (length ip'), [])
                               else parse6_loop s3 ip' (Some (length ip'))))
                      else parse6_loop s2 ip' ellipsis)))
      else Some (ip, ellipsis, s))"
  by pat_completeness auto
termination
  by (relation "measure (\<lambda>(s, ip, ellipsis). 16 - length ip)") (auto simp: group_bytes_def)

declare parse6_loop.simps [simp del]

text \<open>
  After the loop of \<^verbatim>\<open>parseIPv6\<close>: nothing of the text may be left, and fewer than
  16 bytes are completed with zeros at the \<open>::\<close>, which must then exist and must stand
  for at least one group.
\<close>

definition finish6 :: "(byte list \<times> nat option \<times> byte list) option \<Rightarrow> byte list option" where
  "finish6 r =
     (case r of
        None \<Rightarrow> None
      | Some (ip, ellipsis, rest) \<Rightarrow>
          if rest \<noteq> [] then None
          else if length ip < 16 then
            (case ellipsis of
               None \<Rightarrow> None
             | Some e \<Rightarrow> Some (take e ip @ replicate (16 - length ip) 0 @ drop e ip))
          else if ellipsis \<noteq> None then None
          else Some ip)"

text \<open>
  \<^verbatim>\<open>parseIPv6\<close> as \<^verbatim>\<open>net.ParseIP\<close> uses it: a text with a zone (a percent sign) is
  never accepted; a leading \<open>::\<close> is taken first, and alone it is the zero address.
\<close>

definition parseIPv6 :: "byte list \<Rightarrow> byte list option" where
  "parseIPv6 s0 =
     (if 0x25 \<in> set s0 then None
      else if 2 \<le> length s0 \<and> s0 ! 0 = 0x3A \<and> s0 ! 1 = 0x3A then
        (if drop 2 s0 = [] then Some (replicate 16 0)
         else finish6 (parse6_loop (drop 2 s0) [] (Some 0)))
      else finish6 (parse6_loop s0 [] None))"

text \<open>
  \<^verbatim>\<open>netip.ParseAddr\<close>: the first dot, colon or percent sign of the text \<open>s\<close> decides
  how it is parsed. The result is in the 16-byte form, an IPv4 address as IPv4-mapped.
\<close>

fun parseAddr :: "byte list \<Rightarrow> byte list \<Rightarrow> byte list option" where
  "parseAddr [] s = None"
| "parseAddr (c # cs) s =
     (if c = 0x2E then map_option (\<lambda>f. v4InV6Prefix @ f) (parse4 s 0 0 [])
      else if c = 0x3A then parseIPv6 s
      else if c = 0x25 then None
      else parseAddr cs s)"

text \<open>\<^verbatim>\<open>net.ParseIP(s)\<close>: the 16 bytes of the address, or nil.\<close>

definition ParseIP :: "gostring \<Rightarrow> byte list" where
  "ParseIP s = (case parseAddr s s of None \<Rightarrow> [] | Some ip \<Rightarrow> ip)"

section \<open>A stream connection (\<^verbatim>\<open>net.Conn\<close>)\<close>

text \<open>
  One side of a TCP connection as the server sees it. \<open>pending\<close> holds the bytes the
  peer sends before it closes its sending side, so a read that finds nothing pending
  reports end of file. \<open>written\<close> lists the buffers handed to \<^verbatim>\<open>Write\<close>, oldest
  first. \<open>wr_ok\<close> is the number of \<^verbatim>\<open>Write\<close> calls that still succeed; every later
  one fails. \<open>closed\<close> is set by \<^verbatim>\<open>Close\<close>.
\<close>

record conn =
  pending :: "byte list"
  written :: "byte list list"
  wr_ok :: nat
  closed :: bool

datatype io_error = EOF | ErrUnexpectedEOF | ErrShortWrite | ErrWrite

text \<open>\<^verbatim>\<open>conn.Write(b)\<close>: the error, or the number of bytes written.\<close>

definition conn_Write :: "byte list \<Rightarrow> conn \<Rightarrow> (io_error + nat) \<times> conn" where
  "conn_Write b c =
     (if wr_ok c = 0 then (Inl ErrWrite, c\<lparr>written := written c @ [b]\<rparr>)
      else (Inr (length b), c\<lparr>written := written c @ [b], wr_ok := wr_ok c - 1\<rparr>))"

text \<open>
  \<^verbatim>\<open>conn.Read(buf)\<close> with a buffer of \<open>k\<close> bytes: the bytes read (at most \<open>k\<close>), or
  end of file.
\<close>

definition conn_Read :: "nat \<Rightarrow> conn \<Rightarrow> (io_error + byte list) \<times> conn" where
  "conn_Read k c =
     (if pending c = [] then (Inl EOF, c)
      else (Inr (take k (pending c)), c\<lparr>pending := drop k (pending c)\<rparr>))"

text \<open>
  \<^verbatim>\<open>io.ReadFull(conn, buf)\<close> with \<^verbatim>\<open>buf := make([]byte, n)\<close>. The result is the
  error (if any), the buffer afterwards and the connection. \<^verbatim>\<open>make\<close> zero-fills the
  buffer, and a short read leaves the zeros behind what was read. With fewer than \<open>n\<close>
  bytes the error is \<open>EOF\<close> when nothing was read and \<open>ErrUnexpectedEOF\<close> otherwise.
\<close>

definition ReadFull :: "nat \<Rightarrow> conn \<Rightarrow> io_error option \<times> byte list \<times> conn" where
  "ReadFull n c =
     (let got = take n (pending c);
          buf = got @ replicate (n - length got) 0;
          c' = c\<lparr>pending := drop n (pending c)\<rparr>
      in (if length got = n then None
          else if got = [] then Some EOF else Some ErrUnexpectedEOF,
          buf, c'))"

section \<open>Negotiator: \<^verbatim>\<open>handshake\<close>\<close>

text \<open>The errors the handlers return (\<^verbatim>\<open>fmt.Errorf\<close> values, by their message).\<close>

datatype error =
    FailedToRead string io_error
  | UnsupportedVersion byte
  | UnsupportedCommand byte
  | UnsupportedAddressType byte
  | FailedToConnect gostring
  | ReplyWriteFailed io_error
  | FailedToSendUDPAssociateReply io_error

definition handshake :: "conn \<Rightarrow> error option \<times> conn" where
  "handshake c =
     (case ReadFull 2 c of
        (Some e, buf, c1) \<Rightarrow> (Some (FailedToRead ''handshake'' e), c1)
      | (None, buf, c1) \<Rightarrow>
          (let version = buf ! 0; nMethods = buf ! 1 in
           if version \<noteq> socks5Version then (Some (UnsupportedVersion version), c1)
           else
             (case ReadFull (unat nMethods) c1 of
                (Some e, methods, c2) \<Rightarrow> (Some (FailedToRead ''methods'' e), c2)
              | (None, methods, c2) \<Rightarrow>
                  (case conn_Write [socks5Version, noAuth] c2 of
                     (Inl e, c3) \<Rightarrow> (Some (ReplyWriteFailed e), c3)
                   | (Inr _, c3) \<Rightarrow> (None, c3)))))"

section \<open>Request dispatcher: \<^verbatim>\<open>handleRequest\<close>, \<^verbatim>\<open>sendReply\<close>, \<^verbatim>\<open>handleUDPAssociate\<close>\<close>

text \<open>
  The connections of one session: the control connection, and the destination connection
  once \<^verbatim>\<open>net.Dial\<close> has returned one. The handlers pass this state along.
\<close>

record world =
  client :: conn
  target :: "conn option"

text \<open>
  What the handlers are given from outside: the outcome of \<^verbatim>\<open>net.Dial("tcp", target)\<close>
  for each target text (the new connection, or \<open>None\<close> for a failed dial), and the port
  of the local address of the shared UDP socket \<^verbatim>\<open>udpConn\<close>.
\<close>

record netenv =
  dial :: "gostring \<Rightarrow> conn option"
  udpPort :: int

text \<open>
  The \<^verbatim>\<open>net.Conn\<close> that \<^verbatim>\<open>handleRequest\<close> returns: the dialled destination
  connection, or a \<^verbatim>\<open>dummyConn\<close> that embeds the control connection itself.
\<close>

datatype upstream = TargetConn | DummyConn

definition sendReply :: "byte \<Rightarrow> conn \<Rightarrow> io_error option \<times> conn" where
  "sendReply rep c =
     (case conn_Write [socks5Version, rep, 0x00, 0x01, 0, 0, 0, 0, 0, 0] c of
        (Inl e, c') \<Rightarrow> (Some e, c')
      | (Inr _, c') \<Rightarrow> (None, c'))"

text \<open>The address switch of \<^verbatim>\<open>handleRequest\<close> (the CONNECT path).\<close>

definition readTargetAddr :: "byte \<Rightarrow> conn \<Rightarrow> (error + gostring) \<times> conn" where
  "readTargetAddr addrType c =
     (if addrType = ipv4Address then
        (case ReadFull 4 c of
           (Some e, addr, c1) \<Rightarrow> (Inl (FailedToRead ''IPv4 address'' e), c1)
         | (None, addr, c1) \<Rightarrow> (Inr (ip_String addr), c1))
      else if addrType = domainName then
        (case ReadFull 1 c of
           (Some e, lenBuf, c1) \<Rightarrow> (Inl (FailedToRead ''domain length'' e), c1)
         | (None, lenBuf, c1) \<Rightarrow>
             (case ReadFull (unat (lenBuf ! 0)) c1 of
                (Some e, domain, c2) \<Rightarrow> (Inl (FailedToRead ''domain'' e), c2)
              | (None, domain, c2) \<Rightarrow> (Inr domain, c2)))
      else if addrType = ipv6Address then
        (case ReadFull 16 c of
           (Some e, addr, c1) \<Rightarrow> (Inl (FailedToRead ''IPv6 address'' e), c1)
         | (None, addr, c1) \<Rightarrow> (Inr (ip_String addr), c1))
      else (Inl (UnsupportedAddressType addrType), snd (sendReply 0x08 c)))"

text \<open>
  The rest of \<^verbatim>\<open>handleRequest\<close> for the CONNECT command: the target address, the
  port, the dial and the reply. When the success reply cannot be written the new
  destination connection is closed before the error is returned.
\<close>

definition handleConnect :: "netenv \<Rightarrow> byte \<Rightarrow> world \<Rightarrow> (error + upstream) \<times> world" where
  "handleConnect env addrType w =
     (case readTargetAddr addrType (client w) of
        (Inl e, c1) \<Rightarrow> (Inl e, w\<lparr>client := c1\<rparr>)
      | (Inr targetAddr, c1) \<Rightarrow>
          (case ReadFull 2 c1 of
             (Some e, portBuf, c2) \<Rightarrow> (Inl (FailedToRead ''port'' e), w\<lparr>client := c2\<rparr>)
           | (None, portBuf, c2) \<Rightarrow>
               (let port = Uint16 portBuf;
                    tgt = targetAddr @ ascii '':'' @ decimal (unat port)
                in case dial env tgt of
                     None \<Rightarrow> (Inl (FailedToConnect tgt), w\<lparr>client := snd (sendReply 0x05 c2)\<rparr>)
                   | Some t \<Rightarrow>
                       (case sendReply 0x00 c2 of
                          (Some e, c3) \<Rightarrow>
                            (Inl (ReplyWriteFailed e),
                             w\<lparr>client := c3, target := Some (t\<lparr>closed := True\<rparr>)\<rparr>)
                        | (None, c3) \<Rightarrow>
                            (Inr TargetConn, w\<lparr>client := c3, target := Some t\<rparr>)))))"

text \<open>
  \<^verbatim>\<open>handleUDPAssociate\<close>. The results of its \<^verbatim>\<open>io.ReadFull\<close> calls are not
  looked at: only the connection moves on, and \<^verbatim>\<open>lenBuf[0]\<close> is whatever the
  buffer holds afterwards.
\<close>

definition handleUDPAssociate :: "netenv \<Rightarrow> byte \<Rightarrow> world \<Rightarrow> (error + upstream) \<times> world" where
  "handleUDPAssociate env addrType w =
     (let c = client w;
          c1 = (if addrType = ipv4Address then snd (snd (ReadFull 4 c))
                else if addrType = domainName then
                  (case ReadFull 1 c of
                     (_, lenBuf, ca) \<Rightarrow> snd (snd (ReadFull (unat (lenBuf ! 0)) ca)))
                else if addrType = ipv6Address then snd (snd (ReadFull 16 c))
                else c);
          c2 = snd (snd (ReadFull 2 c1));
          reply = [socks5Version, 0x00, 0x00, 0x01] @ [0, 0, 0, 0] @
                  PutUint16 (of_int (udpPort env))
      in case conn_Write reply c2 of
           (Inl e, c3) \<Rightarrow> (Inl (FailedToSendUDPAssociateReply e), w\<lparr>client := c3\<rparr>)
         | (Inr _, c3) \<Rightarrow> (Inr DummyConn, w\<lparr>client := c3\<rparr>))"

definition handleRequest :: "netenv \<Rightarrow> world \<Rightarrow> (error + upstream) \<times> world" where
  "handleRequest env w =
     (case ReadFull 4 (client w) of
        (Some e, buf, c1) \<Rightarrow> (Inl (FailedToRead ''request'' e), w\<lparr>client := c1\<rparr>)
      | (None, buf, c1) \<Rightarrow>
          (let version = buf ! 0; cmd = buf ! 1; addrType = buf ! 3 in
           if version \<noteq> socks5Version then (Inl (UnsupportedVersion version), w\<lparr>client := c1\<rparr>)
           else if cmd = connectCmd then handleConnect env addrType (w\<lparr>client := c1\<rparr>)
           else if cmd = udpAssociate then handleUDPAssociate env addrType (w\<lparr>client := c1\<rparr>)
           else (Inl (UnsupportedCommand cmd), w\<lparr>client := snd (sendReply 0x07 c1)\<rparr>)))"

section \<open>Stream relay: \<^verbatim>\<open>relay\<close>, \<^verbatim>\<open>dummyConn\<close>, \<^verbatim>\<open>handleConnection\<close>\<close>

text \<open>
  The methods of the returned connection. A \<^verbatim>\<open>dummyConn\<close> reads from and closes
  the control connection it embeds, and its \<^verbatim>\<open>Write\<close> returns \<^verbatim>\<open>0, nil\<close>
  without writing.
\<close>

definition client_Read :: "nat \<Rightarrow> world \<Rightarrow> (io_error + byte list) \<times> world" where
  "client_Read k w = (case conn_Read k (client w) of (r, c) \<Rightarrow> (r, w\<lparr>client := c\<rparr>))"

definition client_Write :: "byte list \<Rightarrow> world \<Rightarrow> (io_error + nat) \<times> world" where
  "client_Write b w = (case conn_Write b (client w) of (r, c) \<Rightarrow> (r, w\<lparr>client := c\<rparr>))"

definition client_Close :: "world \<Rightarrow> world" where
  "client_Close w = w\<lparr>client := (client w)\<lparr>closed := True\<rparr>\<rparr>"

fun up_Read :: "upstream \<Rightarrow> nat \<Rightarrow> world \<Rightarrow> (io_error + byte list) \<times> world" where
  "up_Read DummyConn k w = client_Read k w"
| "up_Read TargetConn k w =
     (case target w of
        None \<Rightarrow> (Inl EOF, w)
      | Some t \<Rightarrow> (case conn_Read k t of (r, t') \<Rightarrow> (r, w\<lparr>target := Some t'\<rparr>)))"

fun up_Write :: "upstream \<Rightarrow> byte list \<Rightarrow> world \<Rightarrow> (io_error + nat) \<times> world" where
  "up_Write DummyConn b w = (Inr 0, w)"
| "up_Write TargetConn b w =
     (case target w of
        None \<Rightarrow> (Inl ErrWrite, w)
      | Some t \<Rightarrow> (case conn_Write b t of (r, t') \<Rightarrow> (r, w\<lparr>target := Some t'\<rparr>)))"

fun up_Close :: "upstream \<Rightarrow> world \<Rightarrow> world" where
  "up_Close DummyConn w = client_Close w"
| "up_Close TargetConn w = w\<lparr>target := map_option (\<lambda>t. t\<lparr>closed := True\<rparr>) (target w)\<rparr>"

text \<open>
  One pass of the loop of \<^verbatim>\<open>io.Copy(dst, src)\<close>: a \<^verbatim>\<open>Read\<close> from the source that
  returns at most \<open>k\<close> bytes, and a \<^verbatim>\<open>Write\<close> of what was read. The result is
  \<open>None\<close> when the loop goes on and \<open>Some err\<close> when the copy returns (\<open>err = None\<close>
  for a copy that ends at end of file). A write that takes fewer bytes than were read ends
  the copy with \<open>ErrShortWrite\<close>.
\<close>

definition copy_pass ::
  "(nat \<Rightarrow> world \<Rightarrow> (io_error + byte list) \<times> world) \<Rightarrow>
   (byte list \<Rightarrow> world \<Rightarrow> (io_error + nat) \<times> world) \<Rightarrow>
   nat \<Rightarrow> world \<Rightarrow> io_error option option \<times> world" where
  "copy_pass rd wr k w =
     (case rd k w of
        (Inl er, w1) \<Rightarrow> (Some (if er = EOF then None else Some er), w1)
      | (Inr bs, w1) \<Rightarrow>
          if bs = [] then (None, w1)
          else (case wr bs w1 of
                  (Inl ew, w2) \<Rightarrow> (Some (Some ew), w2)
                | (Inr nw, w2) \<Rightarrow>
                    if length bs \<noteq> nw then (Some (Some ErrShortWrite), w2) else (None, w2)))"

text \<open>
  \<^verbatim>\<open>relay(client, target)\<close> starts one goroutine per direction and returns when the
  first of them has finished its copy. Which goroutine runs next, and how many bytes its
  read returns, is not fixed by the program: the schedule lists these choices. The result
  is \<open>None\<close> when the schedule ends with both copies still running.
\<close>

datatype direction = ClientToTarget | TargetToClient

fun relay :: "upstream \<Rightarrow> (direction \<times> nat) list \<Rightarrow> world \<Rightarrow> world option" where
  "relay up [] w = None"
| "relay up ((d, k) # sched) w =
     (case (case d of
              ClientToTarget \<Rightarrow> copy_pass client_Read (up_Write up) k w
            | TargetToClient \<Rightarrow> copy_pass (up_Read up) client_Write k w) of
        (Some _, w') \<Rightarrow> Some w'
      | (None, w') \<Rightarrow> relay up sched w')"

text \<open>
  \<^verbatim>\<open>handleConnection\<close>. The deferred calls run when it returns:
  \<^verbatim>\<open>targetConn.Close()\<close> if it was registered, then \<^verbatim>\<open>conn.Close()\<close>. The result
  is the state of the connections when the handler has returned, and \<open>None\<close> when the
  relay is still running at the end of the schedule.
\<close>

definition handleConnection ::
  "netenv \<Rightarrow> (direction \<times> nat) list \<Rightarrow> world \<Rightarrow> world option" where
  "handleConnection env sched w =
     (case handshake (client w) of
        (Some e, c1) \<Rightarrow> Some (client_Close (w\<lparr>client := c1\<rparr>))
      | (None, c1) \<Rightarrow>
          (case handleRequest env (w\<lparr>client := c1\<rparr>) of
             (Inl e, w2) \<Rightarrow> Some (client_Close w2)
           | (Inr up, w2) \<Rightarrow>
               (case relay up sched w2 of
                  None \<Rightarrow> None
                | Some w3 \<Rightarrow> Some (client_Close (up_Close up w3)))))"

text \<open>
  A connection on which nothing has been written yet, with the bytes its peer will send
  and the number of writes that will succeed; and a session that starts on such a control
  connection.
\<close>

definition new_conn :: "byte list \<Rightarrow> nat \<Rightarrow> conn" where
  "new_conn bs n = \<lparr>pending = bs, written = [], wr_ok = n, closed = False\<rparr>"

definition new_session :: "byte list \<Rightarrow> nat \<Rightarrow> world" where
  "new_session bs n = \<lparr>client = new_conn bs n, target = None\<rparr>"

text \<open>The number of bytes that the two peers of a session have sent and the relay has not read.\<close>

definition unread :: "world \<Rightarrow> nat" where
  "unread w = length (pending (client w))
            + (case target w of None \<Rightarrow> 0 | Some t \<Rightarrow> length (pending t))"

section \<open>Datagram relay: \<^verbatim>\<open>processUDPPacket\<close>, \<^verbatim>\<open>buildUDPReply\<close>\<close>

text \<open>
  Reads of the packet \<^verbatim>\<open>data\<close>: the index expression \<^verbatim>\<open>data[i]\<close> and the slice
  expressions \<^verbatim>\<open>data[lo:hi]\<close> and \<^verbatim>\<open>data[lo:]\<close>. The result is \<open>None\<close> when
  the read would reach outside the \<^verbatim>\<open>len(data)\<close> bytes of the packet.
\<close>

definition index_at :: "byte list \<Rightarrow> nat \<Rightarrow> byte option" where
  "index_at data i = (if i < length data then Some (data ! i) else None)"

definition slice_of :: "byte list \<Rightarrow> nat \<Rightarrow> nat \<Rightarrow> byte list option" where
  "slice_of data lo hi =
     (if lo \<le> hi \<and> hi \<le> length data then Some (take (hi - lo) (drop lo data)) else None)"

definition slice_from :: "byte list \<Rightarrow> nat \<Rightarrow> byte list option" where
  "slice_from data lo = (if lo \<le> length data then Some (drop lo data) else None)"

text \<open>Why a packet is dropped before anything is forwarded.\<close>

datatype dropped =
    TooShort
  | InvalidRSV
  | FragNotSupported
  | Truncated
  | UnsupportedAtyp byte

text \<open>What the parser hands on: the local variables of \<^verbatim>\<open>processUDPPacket\<close>.\<close>

record envelope =
  addrType :: byte
  targetAddr :: gostring
  headerLen :: nat
  targetPort :: uint16
  payload :: "byte list"

text \<open>
  The port and the payload (the lines after the address switch). \<open>headerLen\<close> is 10,
  22 or \<open>7 + domainLen\<close>, so \<open>headerLen - 2\<close> is not negative.
\<close>

definition extractRest ::
  "byte list \<Rightarrow> byte \<Rightarrow> gostring \<Rightarrow> nat \<Rightarrow> (dropped + envelope) option" where
  "extractRest data atyp addr hlen = do {
     let portOffset = hlen - 2;
     portBytes \<leftarrow> slice_of data portOffset (portOffset + 2);
     rest \<leftarrow> slice_from data hlen;
     Some (Inr \<lparr>addrType = atyp, targetAddr = addr, headerLen = hlen,
                targetPort = Uint16 portBytes, payload = rest\<rparr>)
   }"

text \<open>
  The address decoder of the datagram path: the switch on \<^verbatim>\<open>data[3]\<close> with its
  length checks, then the port and the payload. The program runs it only as the last
  part of the parser below, after the check of the length against 10.
\<close>

definition decodeTarget :: "byte list \<Rightarrow> (dropped + envelope) option" where
  "decodeTarget data = do {
     atyp \<leftarrow> index_at data 3;
     if atyp = ipv4Address then
       (if length data < 10 then Some (Inl Truncated)
        else do {
          a \<leftarrow> slice_of data 4 8;
          extractRest data atyp (ip_String a) 10
        })
     else if atyp = domainName then
       (if length data < 5 then Some (Inl Truncated)
        else do {
          l \<leftarrow> index_at data 4;
          let domainLen = unat l;
          if length data < 7 + domainLen then Some (Inl Truncated)
          else do {
            d \<leftarrow> slice_of data 5 (5 + domainLen);
            extractRest data atyp d (7 + domainLen)
          }
        })
     else if atyp = ipv6Address then
       (if length data < 22 then Some (Inl Truncated)
        else do {
          a \<leftarrow> slice_of data 4 20;
          extractRest data atyp (ip_String a) 22
        })
     else Some (Inl (UnsupportedAtyp atyp))
   }"

text \<open>
  The parser of \<^verbatim>\<open>processUDPPacket\<close>: the length check, the reserved bytes, the
  fragment byte, then the address decoder.
\<close>

definition parseUDPPacket :: "byte list \<Rightarrow> (dropped + envelope) option" where
  "parseUDPPacket data =
     (if length data < 10 then Some (Inl TooShort)
      else do {
        rsv0 \<leftarrow> index_at data 0;
        if rsv0 \<noteq> 0 then Some (Inl InvalidRSV)
        else do {
          rsv1 \<leftarrow> index_at data 1;
          if rsv1 \<noteq> 0 then Some (Inl InvalidRSV)
          else do {
            frag \<leftarrow> index_at data 2;
            if frag \<noteq> 0 then Some (Inl FragNotSupported)
            else decodeTarget data
          }
        }
      })"

definition buildUDPReply :: "gostring \<Rightarrow> uint16 \<Rightarrow> byte \<Rightarrow> byte list \<Rightarrow> byte list" where
  "buildUDPReply addr port atyp body =
     [0, 0, 0] @ [atyp] @
     (if atyp = ipv4Address then To4 (ParseIP addr)
      else if atyp = domainName then [of_nat (length addr)] @ addr
      else if atyp = ipv6Address then To16 (ParseIP addr)
      else []) @
     PutUint16 port @ body"

text \<open>
  The network as one packet's handler meets it: the address that
  \<^verbatim>\<open>net.ResolveUDPAddr\<close> returns for a target text (or its failure), whether
  \<^verbatim>\<open>net.DialUDP\<close> succeeds, whether the write of the payload on the temporary
  socket succeeds, the datagram that the read on it returns before the deadline of five
  seconds (\<open>None\<close> for a timeout or a read error), and whether
  \<^verbatim>\<open>udpConn.WriteToUDP\<close> of a reply to a client address succeeds.
\<close>

record ('a, 'c) udpnet =
  resolveUDPAddr :: "gostring \<Rightarrow> 'a option"
  dialUDP :: "'a \<Rightarrow> bool"
  writeTarget :: "'a \<Rightarrow> byte list \<Rightarrow> bool"
  readTarget :: "'a \<Rightarrow> byte list \<Rightarrow> byte list option"
  writeClient :: "'c \<Rightarrow> byte list \<Rightarrow> bool"

text \<open>
  The datagrams that the handler of one packet sends: those written on the temporary
  socket, by destination, and those written on the shared socket \<^verbatim>\<open>udpConn\<close>, by
  client address. A write that fails sends nothing.
\<close>

record ('a, 'c) udp_sent =
  to_target :: "('a \<times> byte list) list"
  to_client :: "('c \<times> byte list) list"

definition no_datagram :: "('a, 'c) udp_sent" where
  "no_datagram = \<lparr>to_target = [], to_client = []\<rparr>"

text \<open>
  The second half of \<^verbatim>\<open>processUDPPacket\<close>, from the target text to the reply.
  The target address, the port and the address type are the values that the parser
  copied out of the packet; \<open>body\<close> is what the slice \<^verbatim>\<open>data[headerLen:]\<close> holds
  when \<^verbatim>\<open>tempConn.Write\<close> reads it. The reply is read into a buffer of 65535
  bytes. When \<^verbatim>\<open>WriteToUDP\<close> fails the handler logs the error and returns.
\<close>

definition forwardUDP ::
  "('a, 'c) udpnet \<Rightarrow> envelope \<Rightarrow> byte list \<Rightarrow> 'c \<Rightarrow> ('a, 'c) udp_sent" where
  "forwardUDP net e body clientAddr =
     (let tgt = targetAddr e @ ascii '':'' @ decimal (unat (targetPort e)) in
      case resolveUDPAddr net tgt of
        None \<Rightarrow> no_datagram
      | Some destAddr \<Rightarrow>
          if \<not> dialUDP net destAddr then no_datagram
          else if \<not> writeTarget net destAddr body then no_datagram
          else
            (case readTarget net destAddr body of
               None \<Rightarrow> \<lparr>to_target = [(destAddr, body)], to_client = []\<rparr>
             | Some r \<Rightarrow>
                 (let reply = buildUDPReply (targetAddr e) (targetPort e) (addrType e)
                                (take 65535 r) in
                  if writeClient net clientAddr reply
                  then \<lparr>to_target = [(destAddr, body)], to_client = [(clientAddr, reply)]\<rparr>
                  else \<lparr>to_target = [(destAddr, body)], to_client = []\<rparr>)))"

subsection \<open>The receive loop: \<^verbatim>\<open>handleUDPRelay\<close>\<close>

text \<open>
  \<^verbatim>\<open>handleUDPRelay\<close> allocates one buffer of 65535 bytes, and every pass of its
  loop reads a datagram into it and starts a goroutine on the slice
  \<^verbatim>\<open>buffer[:n]\<close>: the handlers and the loop share the bytes of the buffer, and a
  handler keeps of its packet only the length \<open>n\<close> and the client address. A handler
  reads the buffer at two moments: when it parses the packet, and, after the target is
  resolved and dialled, when it writes the payload slice on the temporary socket.
  Between the two it holds the parser's local variables.
\<close>

datatype stage = Started | Parsed envelope | Finished

record ('a, 'c) handler =
  h_len :: nat
  h_client :: 'c
  h_stage :: stage
  h_sent :: "('a, 'c) udp_sent"

record ('a, 'c) relay_state =
  buffer :: "byte list"
  handlers :: "('a, 'c) handler list"

definition relay_start :: "('a, 'c) relay_state" where
  "relay_start = \<lparr>buffer = replicate 65535 0, handlers = []\<rparr>"

text \<open>
  What happens, in the order in which it happens: \<^verbatim>\<open>ReadFromUDP\<close> returns a
  datagram and the address it came from, and handler number \<open>length (handlers s)\<close> is
  started; \<^verbatim>\<open>ReadFromUDP\<close> returns an error; handler \<open>i\<close> parses; handler \<open>i\<close>
  forwards. The steps of a handler are coarser than the goroutine's (which reads the
  buffer byte by byte while it parses), so every run of the model is a run of the
  program, and a statement about a handler during whose run nothing is received holds
  of the program too, where the buffer is as constant as in the model.
\<close>

datatype 'c event = Receive "byte list" 'c | ReceiveError | Parse nat | Forward nat

definition packet_of :: "('a, 'c) relay_state \<Rightarrow> ('a, 'c) handler \<Rightarrow> byte list" where
  "packet_of s h = take (h_len h) (buffer s)"

text \<open>
  The first half of \<^verbatim>\<open>processUDPPacket\<close>: a packet that the parser drops ends the
  handler. (A read outside the packet would end the program; the parser makes none.)
\<close>

definition parse_stage :: "byte list \<Rightarrow> stage" where
  "parse_stage data =
     (case parseUDPPacket data of Some (Inr e) \<Rightarrow> Parsed e | _ \<Rightarrow> Finished)"

fun relay_step ::
  "('a, 'c) udpnet \<Rightarrow> ('a, 'c) relay_state \<Rightarrow> 'c event \<Rightarrow> ('a, 'c) relay_state" where
  "relay_step net s (Receive d clientAddr) =
     (let n = min (length d) (length (buffer s)) in
      s\<lparr>buffer := take n d @ drop n (buffer s),
        handlers := handlers s @
          [\<lparr>h_len = n, h_client = clientAddr, h_stage = Started, h_sent = no_datagram\<rparr>]\<rparr>)"
| "relay_step net s ReceiveError = s"
| "relay_step net s (Parse i) =
     (if i < length (handlers s) then
        (let h = handlers s ! i in
         case h_stage h of
           Started \<Rightarrow>
             s\<lparr>handlers := (handlers s)[i := h\<lparr>h_stage := parse_stage (packet_of s h)\<rparr>]\<rparr>
         | _ \<Rightarrow> s)
      else s)"
| "relay_step net s (Forward i) =
     (if i < length (handlers s) then
        (let h = handlers s ! i in
         case h_stage h of
           Parsed e \<Rightarrow>
             s\<lparr>handlers := (handlers s)
                 [i := h\<lparr>h_stage := Finished,
                         h_sent := forwardUDP net e (drop (headerLen e) (packet_of s h))
                                     (h_client h)\<rparr>]\<rparr>
         | _ \<Rightarrow> s)
      else s)"

definition handleUDPRelay ::
  "('a, 'c) udpnet \<Rightarrow> 'c event list \<Rightarrow> ('a, 'c) relay_state \<Rightarrow> ('a, 'c) relay_state" where
  "handleUDPRelay net evs s = foldl (relay_step net) s evs"


section \<open>Target addresses\<close>

text \<open>
  A target address of the protocol is an address-type byte with a value: four bytes for
  IPv4, sixteen for IPv6, and between 1 and 255 bytes for a domain name.
\<close>

definition valid_target :: "byte \<Rightarrow> byte list \<Rightarrow> bool" where
  "valid_target atyp v =
     (atyp = ipv4Address \<and> length v = 4
      \<or> atyp = ipv6Address \<and> length v = 16
      \<or> atyp = domainName \<and> 1 \<le> length v \<and> length v \<le> 255)"

text \<open>
  The bytes that follow the four-byte header of a request hold an address of the given
  type and a port in full: four address bytes and two port bytes for IPv4, sixteen and
  two for IPv6, and for a domain name the length byte, as many bytes as it says, and the
  two port bytes. A UDP ASSOCIATE request is a request of version 0x05 and command 0x03.
\<close>

definition address_complete :: "byte \<Rightarrow> byte list \<Rightarrow> bool" where
  "address_complete atyp bs =
     (atyp = ipv4Address \<and> 6 \<le> length bs
      \<or> atyp = ipv6Address \<and> 18 \<le> length bs
      \<or> atyp = domainName \<and> 1 \<le> length bs \<and> 3 + unat (bs ! 0) \<le> length bs)"

definition udp_associate_request :: "byte list \<Rightarrow> bool" where
  "udp_associate_request p =
     (4 \<le> length p \<and> p ! 0 = socks5Version \<and> p ! 1 = udpAssociate)"

text \<open>
  The address as the relay holds it between decoding and encoding, in the variable
  \<^verbatim>\<open>targetAddr\<close>: the text of an IP address, or the domain name itself.
\<close>

definition addr_text :: "byte \<Rightarrow> byte list \<Rightarrow> gostring" where
  "addr_text atyp v = (if atyp = domainName then v else ip_String v)"

text \<open>The address on the wire: the value, behind its length byte for a domain name.\<close>

definition addr_wire :: "byte \<Rightarrow> byte list \<Rightarrow> byte list" where
  "addr_wire atyp v = (if atyp = domainName then of_nat (length v) # v else v)"

section \<open>Properties of the negotiator\<close>

lemmas socks_consts =
  socks5Version_def noAuth_def connectCmd_def udpAssociate_def
  ipv4Address_def domainName_def ipv6Address_def


lemma ReadFull_enough:
  "n \<le> length (pending c) \<Longrightarrow>
   ReadFull n c = (None, take n (pending c), c\<lparr>pending := drop n (pending c)\<rparr>)"
  by (simp add: ReadFull_def Let_def)

text \<open>
  Claim C8. For every method-negotiation request whose version byte is 0x05 and whose
  declared number of method bytes arrives, the server makes exactly one write on the
  connection, the two bytes 0x05 0x00 ("no authentication"), whatever the number and
  the values of the offered methods; the handshake then succeeds exactly when that write
  does, and the bytes after the methods are left unread.
\<close>

theorem handshake_selects_no_auth:
  assumes "pending c = 0x05 # n # methods @ rest"
    and "length methods = unat n"
  shows "written (snd (handshake c)) = written c @ [[0x05, 0x00]]
       \<and> pending (snd (handshake c)) = rest
       \<and> (fst (handshake c) = None) = (0 < wr_ok c)"
proof -
  have r1: "ReadFull 2 c = (None, [0x05, n], c\<lparr>pending := methods @ rest\<rparr>)"
    using assms(1) by (simp add: ReadFull_enough)
  have r2: "ReadFull (unat n) (c\<lparr>pending := methods @ rest\<rparr>)
              = (None, methods, c\<lparr>pending := rest\<rparr>)"
    using assms(2) by (simp add: ReadFull_enough)
  show ?thesis
    by (simp add: handshake_def r1 r2 Let_def socks_consts conn_Write_def)
qed

theorem handshake_selects_no_auth_witness:
  "written (snd (handshake \<lparr>pending = [0x05, 0x02, 0x80, 0xFF, 0x05], written = [],
                            wr_ok = 1, closed = False\<rparr>)) = [[0x05, 0x00]]
   \<and> written (snd (handshake \<lparr>pending = [0x05, 0x00], written = [],
                            wr_ok = 1, closed = False\<rparr>)) = [[0x05, 0x00]]"
  using handshake_selects_no_auth [of "\<lparr>pending = [0x05, 0x02, 0x80, 0xFF, 0x05], written = [],
                            wr_ok = 1, closed = False\<rparr>" "0x02" "[0x80, 0xFF]" "[0x05]"]
    handshake_selects_no_auth [of "\<lparr>pending = [0x05, 0x00], written = [],
                            wr_ok = 1, closed = False\<rparr>" "0x00" "[]" "[]"]
  by simp

section \<open>Properties of the request dispatcher\<close>

lemma ReadFull_conn:
  "ReadFull n c = (e, buf, c1) \<Longrightarrow>
   written c1 = written c \<and> wr_ok c1 = wr_ok c \<and> closed c1 = closed c \<and> length buf = n"
  by (auto simp: ReadFull_def Let_def)

lemma sendReply_written [simp]:
  "written (snd (sendReply rep c)) = written c @ [[0x05, rep, 0x00, 0x01, 0, 0, 0, 0, 0, 0]]"
  by (simp add: sendReply_def conn_Write_def socks_consts)

lemmas eval_defs =
  new_conn_def new_session_def handleConnection_def handshake_def handleRequest_def
  handleConnect_def handleUDPAssociate_def readTargetAddr_def sendReply_def ReadFull_def
  conn_Write_def conn_Read_def copy_pass_def client_Read_def client_Write_def
  client_Close_def Let_def socks_consts PutUint16_def

text \<open>
  Claim C3, as amended. For every request with version 0x05: a CONNECT request whose
  address-type byte is not 0x01, 0x03 or 0x04 is answered with the failure reply of code
  0x08 and fails with UnsupportedAddressType; a request whose command is neither CONNECT
  nor UDP ASSOCIATE is answered with code 0x07 and fails with UnsupportedCommand whatever
  its address type, because the command is dispatched before the address is decoded.
\<close>

theorem unsupported_address_type:
  assumes "pending (client w) = 0x05 # cmd # rsv # atyp # rest"
    and "cmd \<noteq> 0x03"
    and "cmd \<noteq> 0x01 \<or> (atyp \<noteq> 0x01 \<and> atyp \<noteq> 0x03 \<and> atyp \<noteq> 0x04)"
  shows "fst (handleRequest env w)
           = Inl (if cmd = 0x01 then UnsupportedAddressType atyp else UnsupportedCommand cmd)
       \<and> written (client (snd (handleRequest env w)))
           = written (client w) @
             [[0x05, if cmd = 0x01 then 0x08 else 0x07, 0x00, 0x01, 0, 0, 0, 0, 0, 0]]"
proof -
  have r: "ReadFull 4 (client w) = (None, [0x05, cmd, rsv, atyp], (client w)\<lparr>pending := rest\<rparr>)"
    using assms(1) by (simp add: ReadFull_enough)
  show ?thesis
  proof (cases "cmd = 0x01")
    case True
    then show ?thesis
      using assms(3)
      by (simp add: handleRequest_def r Let_def socks_consts handleConnect_def
          readTargetAddr_def)
  next
    case False
    then show ?thesis
      using assms(2)
      by (simp add: handleRequest_def r Let_def socks_consts)
  qed
qed

theorem unsupported_address_type_witness:
  "(fst (handleRequest \<lparr>dial = (\<lambda>t. None), udpPort = 1080\<rparr> (new_session [0x05, 0x01, 0x00, 0x02, 9, 9] 1))
     = Inl (UnsupportedAddressType 0x02)
   \<and> written (client (snd (handleRequest \<lparr>dial = (\<lambda>t. None), udpPort = 1080\<rparr> (new_session [0x05, 0x01, 0x00, 0x02, 9, 9] 1))))
     = [[0x05, 0x08, 0x00, 0x01, 0, 0, 0, 0, 0, 0]])
   \<and> (fst (handleRequest \<lparr>dial = (\<lambda>t. None), udpPort = 1080\<rparr> (new_session [0x05, 0x02, 0x00, 0x01, 10, 0, 0, 1, 0, 80] 1))
     = Inl (UnsupportedCommand 0x02)
   \<and> written (client (snd (handleRequest \<lparr>dial = (\<lambda>t. None), udpPort = 1080\<rparr> (new_session [0x05, 0x02, 0x00, 0x01, 10, 0, 0, 1, 0, 80] 1))))
     = [[0x05, 0x07, 0x00, 0x01, 0, 0, 0, 0, 0, 0]])"
  using unsupported_address_type [of "new_session [0x05, 0x01, 0x00, 0x02, 9, 9] 1"
      "0x01" "0x00" "0x02" "[9, 9]" "\<lparr>dial = (\<lambda>t. None), udpPort = 1080\<rparr>"]
    unsupported_address_type [of "new_session [0x05, 0x02, 0x00, 0x01, 10, 0, 0, 1, 0, 80] 1"
      "0x02" "0x00" "0x01" "[10, 0, 0, 1, 0, 80]" "\<lparr>dial = (\<lambda>t. None), udpPort = 1080\<rparr>"]
  by (simp add: new_session_def new_conn_def)

text \<open>
  The claim as stated fails for a command other than CONNECT: a BIND request (command
  0x02) with the undefined address type 0x02 is answered with code 0x07, not 0x08, and
  fails with UnsupportedCommand.
\<close>

theorem bind_with_bad_address_type_counterexample:
  "fst (handleRequest \<lparr>dial = (\<lambda>t. None), udpPort = 1080\<rparr> (new_session [0x05, 0x02, 0x00, 0x02, 9, 9] 1))
     = Inl (UnsupportedCommand 0x02)
   \<and> written (client (snd (handleRequest \<lparr>dial = (\<lambda>t. None), udpPort = 1080\<rparr> (new_session [0x05, 0x02, 0x00, 0x02, 9, 9] 1))))
     = [[0x05, 0x07, 0x00, 0x01, 0, 0, 0, 0, 0, 0]]"
  by (simp add: eval_defs)

text \<open>
  A UDP ASSOCIATE request with the undefined address type 0x02: the address switch of
  \<^verbatim>\<open>handleUDPAssociate\<close> has no default case, so the two bytes that follow are
  taken for the port and the request is answered with success.
\<close>

lemma udp_associate_with_bad_address_type:
  "fst (handleRequest \<lparr>dial = (\<lambda>t. None), udpPort = 1080\<rparr> (new_session [0x05, 0x03, 0x00, 0x02, 9, 9] 1)) = Inr DummyConn
   \<and> written (client (snd (handleRequest \<lparr>dial = (\<lambda>t. None), udpPort = 1080\<rparr> (new_session [0x05, 0x03, 0x00, 0x02, 9, 9] 1))))
     = [[0x05, 0x00, 0x00, 0x01, 0, 0, 0, 0, 0x04, 0x38]]"
  by (simp add: eval_defs)

text \<open>
  Claim C4, at a failing input. A UDP ASSOCIATE request for an IPv4 address of which only
  one byte arrives before the client closes its sending side is answered with the success
  reply and the association is set up: the read failures are dropped. The same
  truncation in a CONNECT request fails with the read error.
\<close>

theorem truncated_udp_associate_gets_success:
  "fst (handleRequest \<lparr>dial = (\<lambda>t. None), udpPort = 1080\<rparr> (new_session [0x05, 0x03, 0x00, 0x01, 0x7f] 1)) = Inr DummyConn
   \<and> written (client (snd (handleRequest \<lparr>dial = (\<lambda>t. None), udpPort = 1080\<rparr> (new_session [0x05, 0x03, 0x00, 0x01, 0x7f] 1))))
     = [[0x05, 0x00, 0x00, 0x01, 0, 0, 0, 0, 0x04, 0x38]]
   \<and> fst (handleRequest \<lparr>dial = (\<lambda>t. None), udpPort = 1080\<rparr> (new_session [0x05, 0x01, 0x00, 0x01, 0x7f] 1))
     = Inl (FailedToRead ''IPv4 address'' ErrUnexpectedEOF)"
  by (simp add: eval_defs)

lemma ReadFull_written [simp]: "written (snd (snd (ReadFull n c))) = written c"
  by (simp add: ReadFull_def Let_def)

lemma conn_Write_written [simp]: "written (snd (conn_Write b c)) = written c @ [b]"
  by (simp add: conn_Write_def)

lemma handleUDPAssociate_written:
  "written (client (snd (handleUDPAssociate env atyp w)))
     = written (client w) @
       [[0x05, 0x00, 0x00, 0x01, 0, 0, 0, 0] @ PutUint16 (of_int (udpPort env))]"
proof -
  define c1 where "c1 = (if atyp = ipv4Address then snd (snd (ReadFull 4 (client w)))
                else if atyp = domainName then
                  (case ReadFull 1 (client w) of
                     (_, lenBuf, ca) \<Rightarrow> snd (snd (ReadFull (unat (lenBuf ! 0)) ca)))
                else if atyp = ipv6Address then snd (snd (ReadFull 16 (client w)))
                else client w)"
  have "written (case ReadFull 1 (client w) of
                     (_, lenBuf, ca) \<Rightarrow> snd (snd (ReadFull (unat (lenBuf ! 0)) ca))) = written (client w)"
    by (cases "ReadFull 1 (client w)") (auto dest!: ReadFull_conn)
  then have w1: "written c1 = written (client w)"
    by (simp add: c1_def)
  define c2 where "c2 = snd (snd (ReadFull 2 c1))"
  have w2: "written c2 = written (client w)"
    by (simp add: c2_def w1)
  define reply where "reply = [socks5Version, 0x00, 0x00, 0x01] @ [0, 0, 0, 0] @
                  PutUint16 (of_int (udpPort env))"
  have "handleUDPAssociate env atyp w =
      (case conn_Write reply c2 of
           (Inl e, c3) \<Rightarrow> (Inl (FailedToSendUDPAssociateReply e), w\<lparr>client := c3\<rparr>)
         | (Inr _, c3) \<Rightarrow> (Inr DummyConn, w\<lparr>client := c3\<rparr>))"
    by (simp add: handleUDPAssociate_def Let_def c1_def c2_def reply_def)
  moreover obtain r c3 where cw: "conn_Write reply c2 = (r, c3)"
    by (cases "conn_Write reply c2")
  moreover from cw have "written c3 = written (client w) @ [reply]"
    using conn_Write_written [of reply c2] by (simp add: w2)
  ultimately show ?thesis
    by (cases r) (simp_all add: reply_def socks_consts)
qed

lemma readTargetAddr_written_ok:
  "readTargetAddr atyp c = (Inr a, c1) \<Longrightarrow> written c1 = written c"
  by (auto simp: readTargetAddr_def split: if_splits prod.splits option.splits
      dest!: ReadFull_conn)

lemma readTargetAddr_written:
  "written (snd (readTargetAddr atyp c)) = written c
   \<or> written (snd (readTargetAddr atyp c))
       = written c @ [[0x05, 0x08, 0x00, 0x01, 0, 0, 0, 0, 0, 0]]"
  by (auto simp: readTargetAddr_def split: if_splits prod.splits option.splits
      dest!: ReadFull_conn)

lemma sendReply_written_eq:
  "sendReply rep c = (e, c') \<Longrightarrow> written c' = written c @ [[0x05, rep, 0x00, 0x01, 0, 0, 0, 0, 0, 0]]"
  using sendReply_written [of rep c] by simp

lemma handleConnect_written:
  "\<exists>ws. written (client (snd (handleConnect env atyp w))) = written (client w) @ ws
       \<and> (ws = [] \<or> ws = [[0x05, 0x00, 0x00, 0x01, 0, 0, 0, 0, 0, 0]]
                   \<or> ws = [[0x05, 0x05, 0x00, 0x01, 0, 0, 0, 0, 0, 0]]
                   \<or> ws = [[0x05, 0x08, 0x00, 0x01, 0, 0, 0, 0, 0, 0]])"
proof (cases "readTargetAddr atyp (client w)")
  case (Pair r c1)
  show ?thesis
  proof (cases r)
    case (Inl e)
    with Pair readTargetAddr_written [of atyp "client w"] show ?thesis
      by (auto simp: handleConnect_def)
  next
    case (Inr a)
    with Pair have w1: "written c1 = written (client w)"
      by (simp add: readTargetAddr_written_ok)
    obtain e buf c2 where rf: "ReadFull 2 c1 = (e, buf, c2)"
      by (cases "ReadFull 2 c1") auto
    then have w2: "written c2 = written (client w)"
      using w1 by (auto dest!: ReadFull_conn)
    show ?thesis
      using Pair Inr rf w2
      by (auto simp: handleConnect_def Let_def split: option.splits prod.splits
          dest!: sendReply_written_eq)
  qed
qed

lemma handleRequest_written:
  "\<exists>ws. written (client (snd (handleRequest env w))) = written (client w) @ ws
       \<and> (if 4 \<le> length (pending (client w)) \<and> pending (client w) ! 0 = 0x05
              \<and> pending (client w) ! 1 = 0x03
           then ws = [[0x05, 0x00, 0x00, 0x01, 0, 0, 0, 0] @ PutUint16 (of_int (udpPort env))]
           else ws = [] \<or> ws = [[0x05, 0x00, 0x00, 0x01, 0, 0, 0, 0, 0, 0]]
                       \<or> ws = [[0x05, 0x05, 0x00, 0x01, 0, 0, 0, 0, 0, 0]]
                       \<or> ws = [[0x05, 0x07, 0x00, 0x01, 0, 0, 0, 0, 0, 0]]
                       \<or> ws = [[0x05, 0x08, 0x00, 0x01, 0, 0, 0, 0, 0, 0]])"
proof (cases "4 \<le> length (pending (client w))")
  case False
  obtain e buf c1 where rf: "ReadFull 4 (client w) = (e, buf, c1)"
    by (cases "ReadFull 4 (client w)")
  with False have "e \<noteq> None"
    by (auto simp: ReadFull_def Let_def)
  with rf ReadFull_conn [OF rf] have "written (client (snd (handleRequest env w))) = written (client w)"
    by (auto simp: handleRequest_def)
  with False show ?thesis
    by simp
next
  case True
  define c1 where "c1 = (client w)\<lparr>pending := drop 4 (pending (client w))\<rparr>"
  have r: "ReadFull 4 (client w) = (None, take 4 (pending (client w)), c1)"
    using True by (simp add: ReadFull_enough c1_def)
  have w1: "written (client (w\<lparr>client := c1\<rparr>)) = written (client w)"
    by (simp add: c1_def)
  have t: "take 4 (pending (client w)) ! 0 = pending (client w) ! 0"
    "take 4 (pending (client w)) ! 1 = pending (client w) ! 1"
    by simp_all
  show ?thesis
    using True
      handleConnect_written [of env "take 4 (pending (client w)) ! 3" "w\<lparr>client := c1\<rparr>"]
      handleUDPAssociate_written [of env "take 4 (pending (client w)) ! 3" "w\<lparr>client := c1\<rparr>"]
    unfolding w1
    by (auto simp: handleRequest_def r Let_def socks_consts t c1_def)
qed

text \<open>
  Claim C6, as amended. For every request, a UDP ASSOCIATE request being one whose
  address has a supported type and is followed by its port in full: \<^verbatim>\<open>handleRequest\<close>
  writes at most one reply on the control connection, and the reply is the version 0x05,
  a reply code, the reserved byte 0x00, the address type 0x01 (IPv4), the bind address
  0.0.0.0 and a two-byte bind port. The bind port is the local port of the shared UDP
  socket in big-endian order in the reply to a UDP ASSOCIATE request, and zero in every
  other reply (to CONNECT, success or failure, and to an unsupported command).
\<close>

theorem connection_reply_form:
  assumes "udp_associate_request (pending (client w)) \<longrightarrow>
           address_complete (pending (client w) ! 3) (drop 4 (pending (client w)))"
  shows "\<exists>ws. written (client (snd (handleRequest env w))) = written (client w) @ ws
       \<and> (ws = []
          \<or> (\<exists>rep. ws = [[0x05, rep, 0x00, 0x01, 0, 0, 0, 0] @
                 PutUint16 (if udp_associate_request (pending (client w))
                            then of_int (udpPort env) else 0)]))"
proof -
  obtain ws where ws: "written (client (snd (handleRequest env w))) = written (client w) @ ws"
    and f: "if 4 \<le> length (pending (client w)) \<and> pending (client w) ! 0 = 0x05
              \<and> pending (client w) ! 1 = 0x03
           then ws = [[0x05, 0x00, 0x00, 0x01, 0, 0, 0, 0] @ PutUint16 (of_int (udpPort env))]
           else ws = [] \<or> ws = [[0x05, 0x00, 0x00, 0x01, 0, 0, 0, 0, 0, 0]]
                       \<or> ws = [[0x05, 0x05, 0x00, 0x01, 0, 0, 0, 0, 0, 0]]
                       \<or> ws = [[0x05, 0x07, 0x00, 0x01, 0, 0, 0, 0, 0, 0]]
                       \<or> ws = [[0x05, 0x08, 0x00, 0x01, 0, 0, 0, 0, 0, 0]]"
    using handleRequest_written [of env w] by blast
  have z: "PutUint16 0 = [0, 0]"
    by (simp add: PutUint16_def)
  show ?thesis
  proof (cases "udp_associate_request (pending (client w))")
    case True
    with f have "ws = [[0x05, 0x00, 0x00, 0x01, 0, 0, 0, 0] @ PutUint16 (of_int (udpPort env))]"
      by (simp add: udp_associate_request_def socks_consts)
    with ws True show ?thesis
      by simp
  next
    case False
    with f have "ws = [] \<or> (\<exists>rep. ws = [[0x05, rep, 0x00, 0x01, 0, 0, 0, 0] @ PutUint16 0])"
      unfolding z by (auto simp: udp_associate_request_def socks_consts)
    with ws False show ?thesis
      by auto
  qed
qed

theorem connection_reply_form_witness:
  "written (client (snd (handleRequest \<lparr>dial = (\<lambda>t. None), udpPort = 1080\<rparr>
       (new_session [0x05, 0x01, 0x00, 0x01, 1, 2, 3, 4, 0, 80] 1))))
     = [[0x05, 0x05, 0x00, 0x01, 0, 0, 0, 0, 0, 0]]
   \<and> udp_associate_request [0x05, 0x03, 0x00, 0x03, 1, 0x61, 0, 0]
   \<and> address_complete 0x03 [1, 0x61, 0, 0]
   \<and> written (client (snd (handleRequest \<lparr>dial = (\<lambda>t. None), udpPort = 1080\<rparr>
       (new_session [0x05, 0x03, 0x00, 0x03, 1, 0x61, 0, 0] 1))))
     = [[0x05, 0x00, 0x00, 0x01, 0, 0, 0, 0, 0x04, 0x38]]"
  using connection_reply_form [of "new_session [0x05, 0x01, 0x00, 0x01, 1, 2, 3, 4, 0, 80] 1"
       "\<lparr>dial = (\<lambda>t. None), udpPort = 1080\<rparr>"]
    connection_reply_form [of "new_session [0x05, 0x03, 0x00, 0x03, 1, 0x61, 0, 0] 1"
       "\<lparr>dial = (\<lambda>t. None), udpPort = 1080\<rparr>"]
  by (simp add: eval_defs udp_associate_request_def address_complete_def)

text \<open>
  The claim as stated fails for UDP ASSOCIATE: with the UDP socket on port 1080 the bind
  port of the reply is 0x04 0x38, not zero.
\<close>

theorem udp_associate_reply_port_counterexample:
  "written (client (snd (handleRequest \<lparr>dial = (\<lambda>t. None), udpPort = 1080\<rparr>
       (new_session [0x05, 0x03, 0x00, 0x01, 0, 0, 0, 0, 0, 0] 1))))
     = [[0x05, 0x00, 0x00, 0x01, 0, 0, 0, 0, 0x04, 0x38]]"
  by (simp add: eval_defs)

section \<open>Properties of a session\<close>

lemma handleConnect_target:
  assumes "target w = None" and "handleConnect env atyp w = (r, w2)"
  shows "(case r of
            Inl e \<Rightarrow> (case target w2 of None \<Rightarrow> True | Some t \<Rightarrow> closed t)
          | Inr up \<Rightarrow> up = TargetConn)"
  using assms
  by (auto simp: handleConnect_def Let_def split: prod.splits sum.splits option.splits)

lemma handleUDPAssociate_target:
  "handleUDPAssociate env atyp w = (r, w2) \<Longrightarrow> target w2 = target w \<and> (case r of Inl e \<Rightarrow> True | Inr up \<Rightarrow> up = DummyConn)"
  by (auto simp: handleUDPAssociate_def Let_def split: prod.splits sum.splits)

lemma handleRequest_target:
  assumes "target w = None" and "handleRequest env w = (r, w2)"
  shows "(case r of
            Inl e \<Rightarrow> (case target w2 of None \<Rightarrow> True | Some t \<Rightarrow> closed t)
          | Inr up \<Rightarrow> up = TargetConn \<or> target w2 = None)"
proof (cases "ReadFull 4 (client w)")
  case (fields e buf c1)
  show ?thesis
  proof (cases "e = None \<and> buf ! 0 = socks5Version")
    case False
    with fields assms show ?thesis
      by (auto simp: handleRequest_def Let_def split: option.splits)
  next
    case True
    have t1: "target (w\<lparr>client := c1\<rparr>) = None"
      using assms(1) by simp
    consider "buf ! 1 = connectCmd" | "buf ! 1 \<noteq> connectCmd" "buf ! 1 = udpAssociate"
      | "buf ! 1 \<noteq> connectCmd" "buf ! 1 \<noteq> udpAssociate"
      by blast
    then show ?thesis
    proof cases
      case 1
      with True fields assms(2) have "handleConnect env (buf ! 3) (w\<lparr>client := c1\<rparr>) = (r, w2)"
        by (simp add: handleRequest_def Let_def)
      from handleConnect_target [OF t1 this] show ?thesis
        by (auto split: sum.splits)
    next
      case 2
      with True fields assms(2) have "handleUDPAssociate env (buf ! 3) (w\<lparr>client := c1\<rparr>) = (r, w2)"
        by (simp add: handleRequest_def Let_def)
      from handleUDPAssociate_target [OF this] t1 show ?thesis
        by (auto split: sum.splits)
    next
      case 3
      with True fields assms show ?thesis
        by (auto simp: handleRequest_def Let_def)
    qed
  qed
qed

lemma copy_pass_dummy_target:
  "copy_pass client_Read (up_Write DummyConn) k w = (r, w') \<Longrightarrow> target w' = target w"
  "copy_pass (up_Read DummyConn) client_Write k w = (r, w') \<Longrightarrow> target w' = target w"
  by (auto simp: copy_pass_def client_Read_def client_Write_def
      split: prod.splits sum.splits if_splits)

lemma relay_dummy_target:
  "relay DummyConn sched w = Some w' \<Longrightarrow> target w' = target w"
proof (induction sched arbitrary: w)
  case Nil
  then show ?case by simp
next
  case (Cons a sched)
  obtain d k where a: "a = (d, k)" by (cases a)
  show ?case
  proof (cases d)
    case ClientToTarget
    with Cons a show ?thesis
      by (auto split: prod.splits option.splits dest: copy_pass_dummy_target(1))
  next
    case TargetToClient
    with Cons a show ?thesis
      by (auto split: prod.splits option.splits dest: copy_pass_dummy_target(2))
  qed
qed

text \<open>
  Claim C9. In a session that has dialled its destination (the session starts without a
  destination connection and ends with one), whenever \<^verbatim>\<open>handleConnection\<close>
  returns, both the control connection and the destination connection are closed: after
  the relay, whichever direction finishes first and however the schedule runs, and also
  when the success reply cannot be written to the client.
\<close>

theorem connect_session_closes_both:
  assumes "target w = None"
    and "handleConnection env sched w = Some w'"
    and "target w' = Some t"
  shows "closed (client w') \<and> closed t"
proof (cases "handshake (client w)")
  case (Pair e c1)
  show ?thesis
  proof (cases e)
    case (Some err)
    with Pair assms show ?thesis
      by (auto simp: handleConnection_def client_Close_def)
  next
    case None
    obtain r w2 where hr: "handleRequest env (w\<lparr>client := c1\<rparr>) = (r, w2)"
      by (cases "handleRequest env (w\<lparr>client := c1\<rparr>)")
    have t1: "target (w\<lparr>client := c1\<rparr>) = None"
      using assms(1) by simp
    note ht = handleRequest_target [OF t1 hr]
    show ?thesis
    proof (cases r)
      case (Inl err)
      with Pair None hr assms ht show ?thesis
        by (auto simp: handleConnection_def client_Close_def split: option.splits)
    next
      case (Inr up)
      then obtain w3 where rl: "relay up sched w2 = Some w3"
        and w': "w' = client_Close (up_Close up w3)"
        using Pair None hr assms(2)
        by (auto simp: handleConnection_def split: option.splits)
      show ?thesis
      proof (cases up)
        case TargetConn
        with w' assms(3) show ?thesis
          by (auto simp: client_Close_def)
      next
        case DummyConn
        with ht Inr have "target w2 = None" by simp
        with relay_dummy_target rl DummyConn have "target w3 = None" by metis
        with w' DummyConn assms(3) show ?thesis
          by (simp add: client_Close_def)
      qed
    qed
  qed
qed

theorem connect_session_closes_both_witness:
  "handleConnection \<lparr>dial = (\<lambda>t. Some (new_conn [0x48, 0x49] 5)), udpPort = 1080\<rparr>
      [(ClientToTarget, 16), (TargetToClient, 16), (TargetToClient, 16)]
      (new_session [0x05, 0x01, 0x00, 0x05, 0x01, 0x00, 0x01, 1, 2, 3, 4, 0, 80, 0x47] 5)
    = Some \<lparr>client = \<lparr>pending = [], written = [[0x05, 0x00], [0x05, 0x00, 0x00, 0x01, 0, 0, 0, 0, 0, 0], [0x48, 0x49]],
                      wr_ok = 2, closed = True\<rparr>,
            target = Some \<lparr>pending = [], written = [[0x47]], wr_ok = 4, closed = True\<rparr>\<rparr>
   \<and> handleConnection \<lparr>dial = (\<lambda>t. Some (new_conn [0x48, 0x49] 5)), udpPort = 1080\<rparr> []
      (new_session [0x05, 0x01, 0x00, 0x05, 0x01, 0x00, 0x01, 1, 2, 3, 4, 0, 80, 0x47] 1)
    = Some \<lparr>client = \<lparr>pending = [0x47], written = [[0x05, 0x00], [0x05, 0x00, 0x00, 0x01, 0, 0, 0, 0, 0, 0]],
                      wr_ok = 0, closed = True\<rparr>,
            target = Some \<lparr>pending = [0x48, 0x49], written = [], wr_ok = 5, closed = True\<rparr>\<rparr>"
proof -
  have a: "handleConnection \<lparr>dial = (\<lambda>t. Some (new_conn [0x48, 0x49] 5)), udpPort = 1080\<rparr>
      [(ClientToTarget, 16), (TargetToClient, 16), (TargetToClient, 16)]
      (new_session [0x05, 0x01, 0x00, 0x05, 0x01, 0x00, 0x01, 1, 2, 3, 4, 0, 80, 0x47] 5)
    = Some \<lparr>client = \<lparr>pending = [], written = [[0x05, 0x00], [0x05, 0x00, 0x00, 0x01, 0, 0, 0, 0, 0, 0], [0x48, 0x49]],
                      wr_ok = 2, closed = True\<rparr>,
            target = Some \<lparr>pending = [], written = [[0x47]], wr_ok = 4, closed = True\<rparr>\<rparr>"
    by (simp add: eval_defs)
  have b: "handleConnection \<lparr>dial = (\<lambda>t. Some (new_conn [0x48, 0x49] 5)), udpPort = 1080\<rparr> []
      (new_session [0x05, 0x01, 0x00, 0x05, 0x01, 0x00, 0x01, 1, 2, 3, 4, 0, 80, 0x47] 1)
    = Some \<lparr>client = \<lparr>pending = [0x47], written = [[0x05, 0x00], [0x05, 0x00, 0x00, 0x01, 0, 0, 0, 0, 0, 0]],
                      wr_ok = 0, closed = True\<rparr>,
            target = Some \<lparr>pending = [0x48, 0x49], written = [], wr_ok = 5, closed = True\<rparr>\<rparr>"
    by (simp add: eval_defs)
  show ?thesis
    using a b connect_session_closes_both [OF _ a] connect_session_closes_both [OF _ b]
    by (simp add: new_session_def)
qed

text \<open>
  The relay returns as soon as the schedule is long enough: each pass of a copy loop whose
  read returns at least one byte either ends the copy or takes bytes that a peer has sent,
  so a schedule with more such passes than there are unread bytes brings one of the two
  copies to its end.
\<close>

lemma conn_Read_progress:
  "0 < k \<Longrightarrow> conn_Read k c = (Inr bs, c') \<Longrightarrow> length (pending c') < length (pending c)"
  by (auto simp: conn_Read_def split: if_splits)

lemma conn_Write_pending: "conn_Write b c = (r, c') \<Longrightarrow> pending c' = pending c"
  by (auto simp: conn_Write_def split: if_splits)

lemma copy_pass_c2t_progress:
  assumes "0 < k" and "copy_pass client_Read (up_Write up) k w = (None, w')"
  shows "unread w' < unread w"
proof -
  obtain r c1 where rd: "conn_Read k (client w) = (r, c1)"
    by (cases "conn_Read k (client w)")
  from assms(2) rd obtain bs where r: "r = Inr bs"
    by (cases r) (auto simp: copy_pass_def client_Read_def)
  from conn_Read_progress [OF assms(1) rd [unfolded r]]
  have lt: "length (pending c1) < length (pending (client w))" .
  show ?thesis
  proof (cases up)
    case DummyConn
    with assms(2) rd r lt show ?thesis
      by (auto simp: copy_pass_def client_Read_def unread_def split: if_splits)
  next
    case TargetConn
    with assms(2) rd r lt show ?thesis
      by (auto simp: copy_pass_def client_Read_def unread_def
          split: if_splits option.splits prod.splits sum.splits dest: conn_Write_pending)
  qed
qed

lemma copy_pass_t2c_progress:
  assumes "0 < k" and "copy_pass (up_Read up) client_Write k w = (None, w')"
  shows "unread w' < unread w"
proof (cases up)
  case DummyConn
  obtain r c1 where rd: "conn_Read k (client w) = (r, c1)"
    by (cases "conn_Read k (client w)")
  from assms(2) rd DummyConn obtain bs where r: "r = Inr bs"
    by (cases r) (auto simp: copy_pass_def client_Read_def)
  from conn_Read_progress [OF assms(1) rd [unfolded r]]
  have lt: "length (pending c1) < length (pending (client w))" .
  with assms(2) rd r DummyConn show ?thesis
    by (auto simp: copy_pass_def client_Read_def client_Write_def unread_def
        split: if_splits prod.splits sum.splits dest: conn_Write_pending)
next
  case TargetConn
  show ?thesis
  proof (cases "target w")
    case None
    with assms(2) TargetConn show ?thesis
      by (simp add: copy_pass_def)
  next
    case (Some t)
    obtain r t1 where rd: "conn_Read k t = (r, t1)"
      by (cases "conn_Read k t")
    from assms(2) rd TargetConn Some obtain bs where r: "r = Inr bs"
      by (cases r) (auto simp: copy_pass_def)
    from conn_Read_progress [OF assms(1) rd [unfolded r]]
    have lt: "length (pending t1) < length (pending t)" .
    with assms(2) rd r TargetConn Some show ?thesis
      by (auto simp: copy_pass_def client_Write_def unread_def
          split: if_splits prod.splits sum.splits dest: conn_Write_pending)
  qed
qed

lemma relay_returns:
  assumes "list_all (\<lambda>(d, k). 0 < k) sched" and "unread w < length sched"
  shows "\<exists>w'. relay up sched w = Some w'"
  using assms
proof (induction sched arbitrary: w)
  case Nil
  then show ?case by simp
next
  case (Cons a sched)
  obtain d k where a: "a = (d, k)" by (cases a)
  with Cons.prems have k: "0 < k" and rest: "list_all (\<lambda>(d, k). 0 < k) sched"
    by simp_all
  define step where "step = (case d of
              ClientToTarget \<Rightarrow> copy_pass client_Read (up_Write up) k w
            | TargetToClient \<Rightarrow> copy_pass (up_Read up) client_Write k w)"
  obtain r w1 where st: "step = (r, w1)" by (cases step)
  show ?case
  proof (cases r)
    case (Some e)
    with st a show ?thesis
      by (simp add: step_def)
  next
    case None
    with st have "unread w1 < unread w"
      using k copy_pass_c2t_progress copy_pass_t2c_progress
      by (cases d) (auto simp: step_def)
    with Cons.prems(2) have "unread w1 < length sched" by simp
    from Cons.IH [OF rest this] obtain w' where "relay up sched w1 = Some w'" ..
    with st a None show ?thesis
      by (simp add: step_def)
  qed
qed

text \<open>
  Claim C2, at a failing input. After a UDP ASSOCIATE request the relay runs with a
  \<^verbatim>\<open>dummyConn\<close> as its target, whose reads are reads of the control connection.
  When the client sends the byte 0x41 after the success reply and the target-to-client copy
  is the one that reads it, that copy writes the byte back to the control connection:
  the third write below, after the method reply and the success reply.
\<close>

theorem udp_association_echoes_client_bytes:
  "handleConnection \<lparr>dial = (\<lambda>t. None), udpPort = 1080\<rparr>
      [(TargetToClient, 16), (TargetToClient, 16)]
      (new_session [0x05, 0x01, 0x00, 0x05, 0x03, 0x00, 0x01, 0, 0, 0, 0, 0, 0, 0x41] 5)
    = Some \<lparr>client = \<lparr>pending = [],
                      written = [[0x05, 0x00], [0x05, 0x00, 0x00, 0x01, 0, 0, 0, 0, 0x04, 0x38], [0x41]],
                      wr_ok = 2, closed = True\<rparr>,
            target = None\<rparr>"
  by (simp add: eval_defs)

section \<open>Properties of the datagram parser\<close>

lemma extractRest_in_bounds:
  assumes "2 \<le> hlen" and "hlen \<le> length data"
  shows "extractRest data atyp addr hlen
       = Some (Inr \<lparr>addrType = atyp, targetAddr = addr, headerLen = hlen,
                    targetPort = Uint16 (take 2 (drop (hlen - 2) data)),
                    payload = drop hlen data\<rparr>)"
proof -
  have "hlen - 2 + 2 = hlen"
    using assms(1) by simp
  then show ?thesis
    using assms(2) by (simp add: extractRest_def slice_of_def slice_from_def Let_def)
qed

lemma decodeTarget_in_bounds:
  assumes "10 \<le> length data"
  shows "case decodeTarget data of
           None \<Rightarrow> False
         | Some (Inl d) \<Rightarrow> True
         | Some (Inr e) \<Rightarrow> 7 \<le> headerLen e \<and> headerLen e \<le> length data
                           \<and> payload e = drop (headerLen e) data"
proof -
  have i3: "index_at data 3 = Some (data ! 3)"
    using assms by (simp add: index_at_def)
  have i4: "index_at data 4 = Some (data ! 4)"
    using assms by (simp add: index_at_def)
  consider (v4) "data ! 3 = ipv4Address"
    | (dom) "data ! 3 \<noteq> ipv4Address" "data ! 3 = domainName"
    | (v6) "data ! 3 \<noteq> ipv4Address" "data ! 3 \<noteq> domainName" "data ! 3 = ipv6Address"
    | (other) "data ! 3 \<noteq> ipv4Address" "data ! 3 \<noteq> domainName" "data ! 3 \<noteq> ipv6Address"
    by blast
  then show ?thesis
  proof cases
    case v4
    then show ?thesis
      using assms by (simp add: decodeTarget_def i3 slice_of_def extractRest_in_bounds)
  next
    case dom
    show ?thesis
    proof (cases "length data < 7 + unat (data ! 4)")
      case True
      with dom assms show ?thesis
        by (simp add: decodeTarget_def i3 i4 Let_def)
    next
      case False
      with dom assms show ?thesis
        by (simp add: decodeTarget_def i3 i4 Let_def slice_of_def extractRest_in_bounds)
    qed
  next
    case v6
    show ?thesis
    proof (cases "length data < 22")
      case True
      with v6 show ?thesis
        by (simp add: decodeTarget_def i3)
    next
      case False
      with v6 show ?thesis
        by (simp add: decodeTarget_def i3 slice_of_def extractRest_in_bounds)
    qed
  next
    case other
    then show ?thesis
      by (simp add: decodeTarget_def i3)
  qed
qed

text \<open>
  Claim C10. For every packet, of any length and content, the parser of
  \<^verbatim>\<open>processUDPPacket\<close> never reads outside the packet: it either drops the packet
  or returns a header length between 7 and the length of the packet, so that the reserved
  bytes, the fragment byte, the address-type byte, the address bytes, the two port bytes
  at \<open>headerLen - 2\<close> and the payload slice from \<open>headerLen\<close> all lie within it.
\<close>

theorem parser_stays_in_bounds:
  "case parseUDPPacket data of
     None \<Rightarrow> False
   | Some (Inl d) \<Rightarrow> True
   | Some (Inr e) \<Rightarrow> 7 \<le> headerLen e \<and> headerLen e \<le> length data
                     \<and> payload e = drop (headerLen e) data"
proof (cases "length data < 10")
  case True
  then show ?thesis
    by (simp add: parseUDPPacket_def)
next
  case False
  then have len: "10 \<le> length data" by simp
  then have i: "index_at data 0 = Some (data ! 0)" "index_at data (Suc 0) = Some (data ! Suc 0)"
    "index_at data 2 = Some (data ! 2)"
    by (auto simp: index_at_def)
  show ?thesis
  proof (cases "data ! 0 = 0 \<and> data ! 1 = 0 \<and> data ! 2 = 0")
    case True
    with False have "parseUDPPacket data = decodeTarget data"
      by (simp add: parseUDPPacket_def i)
    with decodeTarget_in_bounds [OF len] show ?thesis
      by simp
  next
    case nz: False
    with False show ?thesis
      by (auto simp: parseUDPPacket_def i)
  qed
qed

lemmas udp_eval_defs =
  parseUDPPacket_def decodeTarget_def extractRest_def index_at_def slice_of_def slice_from_def
  Let_def Uint16_def

theorem parser_stays_in_bounds_witness:
  "parseUDPPacket [0, 0, 0, 3, 3, 0x61, 0x62, 0x63, 0, 53, 7]
     = Some (Inr \<lparr>addrType = 3, targetAddr = [0x61, 0x62, 0x63], headerLen = 10,
                  targetPort = 53, payload = [7]\<rparr>)"
  using parser_stays_in_bounds [of "[0, 0, 0, 3, 3, 0x61, 0x62, 0x63, 0, 53, 7]"]
  by (simp add: udp_eval_defs socks_consts)

text \<open>
  Claim C5, at a failing input. A domain-type envelope with a domain of one byte (or of
  two bytes), a port and no payload has 8 (or 9) bytes, which is its minimum size
  2 + 1 + 1 + (1 + N) + 2: the address decoder accepts it, with header length
  \<open>7 + domainLen\<close>, but the first check of \<^verbatim>\<open>processUDPPacket\<close> compares the
  length with 10 whatever the address type and drops the packet as too short.
\<close>

theorem short_domain_envelope_rejected:
  "parseUDPPacket [0, 0, 0, 3, 1, 0x61, 0, 53] = Some (Inl TooShort)
   \<and> parseUDPPacket [0, 0, 0, 3, 2, 0x61, 0x62, 0, 53] = Some (Inl TooShort)
   \<and> decodeTarget [0, 0, 0, 3, 1, 0x61, 0, 53]
       = Some (Inr \<lparr>addrType = 3, targetAddr = [0x61], headerLen = 8,
                    targetPort = 53, payload = []\<rparr>)
   \<and> decodeTarget [0, 0, 0, 3, 2, 0x61, 0x62, 0, 53]
       = Some (Inr \<lparr>addrType = 3, targetAddr = [0x61, 0x62], headerLen = 9,
                    targetPort = 53, payload = []\<rparr>)"
  by (simp add: udp_eval_defs socks_consts)

section \<open>Properties of the library functions\<close>

subsection \<open>Big-endian 16-bit values\<close>

lemma Uint16_PutUint16: "Uint16 (PutUint16 v) = v"
  unfolding Uint16_def PutUint16_def
  by (simp, rule bit_word_eqI) (auto simp add: bit_simps)


subsection \<open>Decimal digits\<close>

lemma unat_byte: "unat (b :: byte) < 256"
  using unsigned_less [of b, where 'a = nat] by simp

lemma unat_of_nat_byte: "n < 256 \<Longrightarrow> unat (of_nat n :: byte) = n"
  by (simp only: unat_of_nat) simp

lemma unat_digit: "d < 10 \<Longrightarrow> unat (digit d) = 48 + d"
  unfolding digit_def by (rule unat_of_nat_byte) simp

lemma digit_range: "d < 10 \<Longrightarrow> 0x30 \<le> digit d \<and> digit d \<le> 0x39"
  by (simp add: word_le_nat_alt unat_digit)

lemma digit_not_dot: "d < 10 \<Longrightarrow> digit d \<noteq> 0x2E"
  using unat_digit [of d] by (auto simp: )

lemma decimal_nonempty: "decimal n \<noteq> []"
  by (subst decimal.simps) simp

lemma decimal_digits: "c \<in> set (decimal n) \<Longrightarrow> \<exists>d<10. c = digit d"
proof (induction n rule: decimal.induct)
  case (1 n)
  show ?case
  proof (cases "n < 10")
    case True
    with "1.prems" show ?thesis
      by (subst (asm) decimal.simps) auto
  next
    case False
    with "1.prems" have "c \<in> set (decimal (n div 10)) \<or> c = digit (n mod 10)"
      by (subst (asm) decimal.simps) auto
    with "1.IH" False show ?thesis
      by (metis mod_less_divisor zero_less_numeral)
  qed
qed

lemma parse4_digit:
  assumes "d < 10" and "\<not> (digLen = 1 \<and> val = 0)" and "val * 10 + d \<le> 255"
  shows "parse4 (digit d # s) val digLen fs = parse4 s (val * 10 + d) (Suc digLen) fs"
  using assms digit_range [of d] by (auto simp: unat_digit Let_def)

lemma parse4_decimal:
  "n \<le> 255 \<Longrightarrow>
   parse4 (decimal n @ rest) 0 0 fs = parse4 rest n (length (decimal n)) fs"
proof (induction n arbitrary: rest rule: decimal.induct)
  case (1 n)
  show ?case
  proof (cases "n < 10")
    case True
    then have d: "decimal n = [digit n]"
      by (subst decimal.simps) simp
    show ?thesis
      using True "1.prems" parse4_digit [of n 0 0 rest fs] by (simp add: d)
  next
    case False
    then have d: "decimal n = decimal (n div 10) @ [digit (n mod 10)]"
      by (subst decimal.simps) simp
    have m: "n mod 10 < 10" by simp
    have q: "n div 10 \<le> 255" using "1.prems" by simp
    have pos: "n div 10 \<noteq> 0" using False by (simp add: div_eq_0_iff)
    have "parse4 (decimal n @ rest) 0 0 fs
        = parse4 (decimal (n div 10) @ (digit (n mod 10) # rest)) 0 0 fs"
      by (simp add: d)
    also have "\<dots> = parse4 (digit (n mod 10) # rest) (n div 10) (length (decimal (n div 10))) fs"
      using "1.IH" [OF False q] .
    also have "\<dots> = parse4 rest (n div 10 * 10 + n mod 10) (Suc (length (decimal (n div 10)))) fs"
      using "1.prems" pos by (intro parse4_digit m) auto
    finally show ?thesis
      by (simp add: d)
  qed
qed

lemma parse4_dot:
  assumes "0 < digLen" and "s \<noteq> []" and "length fs < 3"
  shows "parse4 (0x2E # s) (unat b) digLen fs = parse4 s 0 0 (fs @ [b])"
  using assms by simp

lemma parse4_octet_dot:
  assumes "r \<noteq> []" and "length fs < 3"
  shows "parse4 (decimal (unat b) @ 0x2E # r) 0 0 fs = parse4 r 0 0 (fs @ [b])"
proof -
  have le: "unat b \<le> 255"
    using unat_byte [of b] by simp
  have pos: "0 < length (decimal (unat b))"
    using decimal_nonempty by simp
  show ?thesis
    unfolding parse4_decimal [OF le] using parse4_dot [OF pos assms] .
qed

lemma parse4_octet_last:
  assumes "length fs = 3"
  shows "parse4 (decimal (unat b)) 0 0 fs = Some (fs @ [b])"
proof -
  have le: "unat b \<le> 255"
    using unat_byte [of b] by simp
  show ?thesis
    using parse4_decimal [OF le, of "[]" fs] assms by simp
qed

lemma parse4_string4:
  "parse4 (string4 [a, b, c, d]) 0 0 [] = Some [a, b, c, d]"
proof -
  have ne: "\<And>n r. decimal n @ r \<noteq> []" "\<And>n. decimal n \<noteq> []"
    using decimal_nonempty by simp_all
  show ?thesis
    by (simp add: string4_def ascii_def parse4_octet_dot parse4_octet_last ne del: parse4.simps)
qed

subsection \<open>The dispatch of ParseAddr\<close>

lemma parseAddr_skip:
  assumes "list_all (\<lambda>c. c \<noteq> 0x2E \<and> c \<noteq> 0x3A \<and> c \<noteq> 0x25) pre"
  shows "parseAddr (pre @ r) s = parseAddr r s"
  using assms by (induction pre) auto

lemma digit_plain: "d < 10 \<Longrightarrow> digit d \<noteq> 0x2E \<and> digit d \<noteq> 0x3A \<and> digit d \<noteq> 0x25"
  using unat_digit [of d] by auto

lemma decimal_plain: "list_all (\<lambda>c. c \<noteq> 0x2E \<and> c \<noteq> 0x3A \<and> c \<noteq> 0x25) (decimal n)"
  unfolding list_all_iff
proof
  fix c
  assume "c \<in> set (decimal n)"
  then obtain d where "d < 10" and "c = digit d"
    using decimal_digits by blast
  then show "c \<noteq> 0x2E \<and> c \<noteq> 0x3A \<and> c \<noteq> 0x25"
    by (simp add: digit_plain)
qed

lemma ParseIP_string4: "ParseIP (string4 [a, b, c, d]) = v4InV6Prefix @ [a, b, c, d]"
proof -
  have "parseAddr (string4 [a, b, c, d]) (string4 [a, b, c, d])
      = map_option (\<lambda>f. v4InV6Prefix @ f) (parse4 (string4 [a, b, c, d]) 0 0 [])"
    by (subst (1) string4_def) (simp add: ascii_def parseAddr_skip [OF decimal_plain])
  then show ?thesis
    by (simp add: ParseIP_def parse4_string4)
qed

subsection \<open>Hex digits\<close>

lemma unat_hexdigit: "d < 16 \<Longrightarrow> unat (hexdigit d) = (if d < 10 then 48 + d else 87 + d)"
  unfolding hexdigit_def
  by (cases "d < 10") (simp_all only: if_True if_False, (rule unat_of_nat_byte, simp)+)

lemma hexval_hexdigit: "d < 16 \<Longrightarrow> hexval (hexdigit d) = Some d"
  by (auto simp: hexval_def word_le_nat_alt unat_hexdigit)

lemma hexdigit_plain:
  "d < 16 \<Longrightarrow> hexdigit d \<noteq> 0x2E \<and> hexdigit d \<noteq> 0x3A \<and> hexdigit d \<noteq> 0x25"
  using unat_hexdigit [of d] by (auto split: if_splits)

lemma hexval_colon: "hexval 0x3A = None"
  by (simp add: hexval_def)

lemma hexfield_step:
  assumes "d < 16" and "off \<le> 3" and "acc * 16 + d \<le> 65535"
  shows "hexfield (hexdigit d # s) off acc = hexfield s (Suc off) (acc * 16 + d)"
  using assms by (simp add: hexval_hexdigit Let_def)

lemma hexfield_stop:
  assumes "rest = [] \<or> hexval (hd rest) = None"
  shows "hexfield rest off acc = Some (acc, off, rest)"
  using assms by (cases rest) auto

declare hexfield.simps [simp del]

lemma appendHex_length: "1 \<le> length (appendHex x) \<and> length (appendHex x) \<le> 4"
  by (simp add: appendHex_def)

lemma appendHex_nonempty: "appendHex x \<noteq> []"
  by (simp add: appendHex_def)

lemma nibbles:
  "x div 16 * 16 + x mod 16 = (x::nat)"
  "x div 256 * 16 + x div 16 mod 16 = x div 16"
  "x div 4096 * 16 + x div 256 mod 16 = x div 256"
proof -
  show "x div 16 * 16 + x mod 16 = x" by simp
  have "x div 16 div 16 = x div 256" by (simp add: div_mult2_eq)
  then show "x div 256 * 16 + x div 16 mod 16 = x div 16"
    using div_mult_mod_eq [of "x div 16" 16] by simp
  have "x div 256 div 16 = x div 4096" by (simp add: div_mult2_eq)
  then show "x div 4096 * 16 + x div 256 mod 16 = x div 256"
    using div_mult_mod_eq [of "x div 256" 16] by simp
qed

lemma hexfield_appendHex:
  assumes "x < 65536" and "rest = [] \<or> hexval (hd rest) = None"
  shows "hexfield (appendHex x @ rest) 0 0 = Some (x, length (appendHex x), rest)"
proof -
  have d: "x div 4096 < 16" "x div 256 mod 16 < 16" "x div 16 mod 16 < 16" "x mod 16 < 16"
    using assms(1) by simp_all
  have le: "x div 16 \<le> 65535" "x div 256 \<le> 65535" "x div 4096 \<le> 65535" "x \<le> 65535"
    using assms(1) by simp_all
  have stop: "\<And>off acc. hexfield rest off acc = Some (acc, off, rest)"
    using hexfield_stop [OF assms(2)] .
  consider (a) "x < 16" | (b) "16 \<le> x" "x < 256" | (c) "256 \<le> x" "x < 4096" | (d) "4096 \<le> x"
    by linarith
  then show ?thesis
  proof cases
    case a
    then have ah: "appendHex x = [hexdigit (x mod 16)]"
      by (simp add: appendHex_def)
    have "hexfield (hexdigit (x mod 16) # rest) 0 0 = hexfield rest (Suc 0) (x mod 16)"
      using hexfield_step [of "x mod 16" 0 0 rest] d by simp
    then show ?thesis
      using a by (simp add: stop ah)
  next
    case b
    then have ah: "appendHex x = [hexdigit (x div 16 mod 16), hexdigit (x mod 16)]"
      by (simp add: appendHex_def)
    have m: "x div 16 mod 16 = x div 16"
      using b by simp
    have "hexfield (appendHex x @ rest) 0 0
        = hexfield (hexdigit (x mod 16) # rest) (Suc 0) (x div 16)"
      unfolding ah using hexfield_step [of "x div 16 mod 16" 0 0] d by (simp add: m)
    also have "\<dots> = hexfield rest (Suc (Suc 0)) x"
      using hexfield_step [of "x mod 16" "Suc 0" "x div 16" rest] d le
      by (simp add: nibbles)
    finally show ?thesis
      by (simp add: stop ah)
  next
    case c
    then have ah: "appendHex x
        = [hexdigit (x div 256 mod 16), hexdigit (x div 16 mod 16), hexdigit (x mod 16)]"
      by (simp add: appendHex_def)
    have m: "x div 256 mod 16 = x div 256"
      using c by simp
    have "hexfield (appendHex x @ rest) 0 0
        = hexfield (hexdigit (x div 16 mod 16) # hexdigit (x mod 16) # rest) (Suc 0) (x div 256)"
      unfolding ah using hexfield_step [of "x div 256 mod 16" 0 0] d by (simp add: m)
    also have "\<dots> = hexfield (hexdigit (x mod 16) # rest) (Suc (Suc 0)) (x div 16)"
      using hexfield_step [of "x div 16 mod 16" "Suc 0" "x div 256"] d le by (simp add: nibbles)
    also have "\<dots> = hexfield rest (Suc (Suc (Suc 0))) x"
      using hexfield_step [of "x mod 16" "Suc (Suc 0)" "x div 16" rest] d le by (simp add: nibbles)
    finally show ?thesis
      by (simp add: stop ah)
  next
    case d4: d
    then have ah: "appendHex x
        = [hexdigit (x div 4096), hexdigit (x div 256 mod 16), hexdigit (x div 16 mod 16),
           hexdigit (x mod 16)]"
      by (simp add: appendHex_def)
    have "hexfield (appendHex x @ rest) 0 0
        = hexfield (hexdigit (x div 256 mod 16) # hexdigit (x div 16 mod 16)
                    # hexdigit (x mod 16) # rest) (Suc 0) (x div 4096)"
      unfolding ah using hexfield_step [of "x div 4096" 0 0] d by simp
    also have "\<dots> = hexfield (hexdigit (x div 16 mod 16) # hexdigit (x mod 16) # rest)
                         (Suc (Suc 0)) (x div 256)"
      using hexfield_step [of "x div 256 mod 16" "Suc 0" "x div 4096"] d le by (simp add: nibbles)
    also have "\<dots> = hexfield (hexdigit (x mod 16) # rest) (Suc (Suc (Suc 0))) (x div 16)"
      using hexfield_step [of "x div 16 mod 16" "Suc (Suc 0)" "x div 256"] d le by (simp add: nibbles)
    also have "\<dots> = hexfield rest (Suc (Suc (Suc (Suc 0)))) x"
      using hexfield_step [of "x mod 16" "Suc (Suc (Suc 0))" "x div 16" rest] d le by (simp add: nibbles)
    finally show ?thesis
      by (simp add: stop ah)
  qed
qed

lemma appendHex_digits:
  assumes "x < 65536" and "c \<in> set (appendHex x)"
  shows "\<exists>d<16. c = hexdigit d"
proof -
  have d: "x div 4096 < 16" "x div 256 mod 16 < 16" "x div 16 mod 16 < 16" "x mod 16 < 16"
    using assms(1) by simp_all
  from assms(2) have "c = hexdigit (x div 4096) \<or> c = hexdigit (x div 256 mod 16)
      \<or> c = hexdigit (x div 16 mod 16) \<or> c = hexdigit (x mod 16)"
    by (auto simp: appendHex_def split: if_splits)
  with d show ?thesis
    by blast
qed

lemma appendHex_plain:
  assumes "x < 65536"
  shows "list_all (\<lambda>c. c \<noteq> 0x2E \<and> c \<noteq> 0x3A \<and> c \<noteq> 0x25) (appendHex x)"
  unfolding list_all_iff
proof
  fix c
  assume "c \<in> set (appendHex x)"
  then obtain d where "d < 16" and "c = hexdigit d"
    using appendHex_digits [OF assms] by blast
  then show "c \<noteq> 0x2E \<and> c \<noteq> 0x3A \<and> c \<noteq> 0x25"
    by (simp add: hexdigit_plain)
qed

lemma hd_appendHex:
  assumes "x < 65536"
  shows "hd (appendHex x @ r) \<noteq> 0x3A \<and> hd (appendHex x @ r) \<noteq> 0x2E"
  using appendHex_plain [OF assms] appendHex_nonempty [of x]
  by (cases "appendHex x") auto

lemma length_group_bytes [simp]: "length (group_bytes x) = 2"
  by (simp add: group_bytes_def)

lemma length_concat_group_bytes [simp]: "length (concat (map group_bytes gs)) = 2 * length gs"
  by (induction gs) simp_all

subsection \<open>One group of the IPv6 loop\<close>

lemma parse6_group_colon:
  assumes "length ip < 16" and "x < 65536" and "c \<noteq> 0x3A"
  shows "parse6_loop (appendHex x @ 0x3A # c # r) ip ell
       = parse6_loop (c # r) (ip @ group_bytes x) ell"
proof -
  have hf: "hexfield (appendHex x @ 0x3A # c # r) 0 0
          = Some (x, length (appendHex x), 0x3A # c # r)"
    by (rule hexfield_appendHex [OF assms(2)]) (simp add: hexval_colon)
  show ?thesis
    using assms(1,3) appendHex_nonempty [of x]
    by (subst parse6_loop.simps) (simp add: hf Let_def)
qed

lemma parse6_group_end:
  assumes "length ip < 16" and "x < 65536"
  shows "parse6_loop (appendHex x) ip ell = Some (ip @ group_bytes x, ell, [])"
proof -
  have hf: "hexfield (appendHex x) 0 0 = Some (x, length (appendHex x), [])"
    using hexfield_appendHex [OF assms(2), of "[]"] by simp
  show ?thesis
    using assms(1) appendHex_nonempty [of x]
    by (subst parse6_loop.simps) (simp add: hf Let_def)
qed

lemma parse6_group_ellipsis_end:
  assumes "length ip < 16" and "x < 65536"
  shows "parse6_loop (appendHex x @ [0x3A, 0x3A]) ip None
       = Some (ip @ group_bytes x, Some (length ip + 2), [])"
proof -
  have hf: "hexfield (appendHex x @ [0x3A, 0x3A]) 0 0
          = Some (x, length (appendHex x), [0x3A, 0x3A])"
    by (rule hexfield_appendHex [OF assms(2)]) (simp add: hexval_colon)
  show ?thesis
    using assms(1) appendHex_nonempty [of x]
    by (subst parse6_loop.simps) (simp add: hf Let_def)
qed

lemma parse6_group_ellipsis:
  assumes "length ip < 16" and "x < 65536"
  shows "parse6_loop (appendHex x @ 0x3A # 0x3A # c # r) ip None
       = parse6_loop (c # r) (ip @ group_bytes x) (Some (length ip + 2))"
proof -
  have hf: "hexfield (appendHex x @ 0x3A # 0x3A # c # r) 0 0
          = Some (x, length (appendHex x), 0x3A # 0x3A # c # r)"
    by (rule hexfield_appendHex [OF assms(2)]) (simp add: hexval_colon)
  show ?thesis
    using assms(1) appendHex_nonempty [of x]
    by (subst parse6_loop.simps) (simp add: hf Let_def)
qed

subsection \<open>Lists of groups\<close>

lemma join6_Cons: "join6 (g # gs) = appendHex g @ (if gs = [] then [] else 0x3A # join6 gs)"
  by (cases gs) (simp_all add: ascii_def)

lemma join6_head:
  assumes "g < 65536"
  obtains c r where "join6 (g # gs) @ t = c # r" and "c \<noteq> 0x3A"
proof -
  obtain c r0 where a: "appendHex g = c # r0"
    using appendHex_nonempty [of g] by (cases "appendHex g") auto
  with appendHex_plain [OF assms] have "c \<noteq> 0x3A" by simp
  moreover have "join6 (g # gs) @ t = c # (r0 @ (if gs = [] then [] else 0x3A # join6 gs) @ t)"
    by (simp add: join6_Cons a)
  ultimately show ?thesis
    using that by blast
qed

lemma parse6_join6:
  assumes "gs \<noteq> []" and "list_all (\<lambda>g. g < 65536) gs" and "length ip + 2 * length gs \<le> 16"
  shows "parse6_loop (join6 gs) ip ell = Some (ip @ concat (map group_bytes gs), ell, [])"
  using assms
proof (induction gs arbitrary: ip)
  case Nil
  then show ?case by simp
next
  case (Cons g gs)
  from Cons.prems have g: "g < 65536" and len: "length ip < 16"
    by simp_all
  show ?case
  proof (cases gs)
    case Nil
    with g len show ?thesis
      by (simp add: parse6_group_end)
  next
    case (Cons h t)
    with Cons.prems have h: "h < 65536" by simp
    obtain c r where cr: "join6 (h # t) @ [] = c # r" and c: "c \<noteq> 0x3A"
      using join6_head [OF h] by blast
    have "parse6_loop (join6 (g # gs)) ip ell
        = parse6_loop (appendHex g @ 0x3A # c # r) ip ell"
      using cr Cons by (simp add: join6_Cons)
    also have "\<dots> = parse6_loop (join6 gs) (ip @ group_bytes g) ell"
      using parse6_group_colon [OF len g c] cr Cons by simp
    also have "\<dots> = Some ((ip @ group_bytes g) @ concat (map group_bytes gs), ell, [])"
      using Cons.prems Cons by (intro Cons.IH) simp_all
    finally show ?thesis
      by simp
  qed
qed

lemma parse6_join6_ellipsis:
  assumes "pre \<noteq> []" and "list_all (\<lambda>g. g < 65536) pre" and "length ip + 2 * length pre \<le> 16"
    and "rest = [] \<or> hd rest \<noteq> 0x3A"
  shows "parse6_loop (join6 pre @ 0x3A # 0x3A # rest) ip None
       = (if rest = []
          then Some (ip @ concat (map group_bytes pre), Some (length ip + 2 * length pre), [])
          else parse6_loop rest (ip @ concat (map group_bytes pre))
                 (Some (length ip + 2 * length pre)))"
  using assms
proof (induction pre arbitrary: ip)
  case Nil
  then show ?case by simp
next
  case (Cons g gs)
  from Cons.prems have g: "g < 65536" and len: "length ip < 16"
    by simp_all
  show ?case
  proof (cases gs)
    case Nil
    show ?thesis
    proof (cases rest)
      case rn: Nil
      with Nil g len show ?thesis
        by (simp add: parse6_group_ellipsis_end)
    next
      case (Cons c r)
      with Nil g len show ?thesis
        by (simp add: parse6_group_ellipsis)
    qed
  next
    case (Cons h t)
    with Cons.prems have h: "h < 65536" by simp
    obtain c r where cr: "join6 (h # t) @ 0x3A # 0x3A # rest = c # r" and c: "c \<noteq> 0x3A"
      using join6_head [OF h] by blast
    have "parse6_loop (join6 (g # gs) @ 0x3A # 0x3A # rest) ip None
        = parse6_loop (appendHex g @ 0x3A # c # r) ip None"
      using cr Cons by (simp add: join6_Cons)
    also have "\<dots> = parse6_loop (join6 gs @ 0x3A # 0x3A # rest) (ip @ group_bytes g) None"
      using parse6_group_colon [OF len g c] cr Cons by simp
    also have "\<dots> = (if rest = []
          then Some ((ip @ group_bytes g) @ concat (map group_bytes gs),
                     Some (length (ip @ group_bytes g) + 2 * length gs), [])
          else parse6_loop rest ((ip @ group_bytes g) @ concat (map group_bytes gs))
                 (Some (length (ip @ group_bytes g) + 2 * length gs)))"
      using Cons.prems Cons by (intro Cons.IH) simp_all
    finally show ?thesis
      by simp
  qed
qed

subsection \<open>The run of zero groups\<close>

lemma zero_run_le: "zero_run gs \<le> length gs"
  by (induction gs) simp_all

lemma zero_run_take: "take (zero_run gs) gs = replicate (zero_run gs) 0"
  by (induction gs) simp_all

lemma span_ok_run:
  assumes "i < length gs" and "2 \<le> zero_run (drop i gs)"
  shows "span_ok gs (i, i + zero_run (drop i gs))"
proof -
  have "i + zero_run (drop i gs) \<le> length gs"
    using assms(1) zero_run_le [of "drop i gs"] by simp
  then show ?thesis
    using assms(2) zero_run_take [of "drop i gs"] by (simp add: span_ok_def)
qed

lemma find_zeros_span_ok: "span_ok gs best \<Longrightarrow> span_ok gs (find_zeros gs i best)"
proof (induction gs i best rule: find_zeros.induct)
  case (1 gs i best)
  show ?case
  proof (cases "i < length gs")
    case False
    with "1.prems" show ?thesis
      by (subst find_zeros.simps) simp
  next
    case True
    define best' where "best' = (if 2 \<le> zero_run (drop i gs)
         \<and> snd best - fst best < zero_run (drop i gs)
       then (i, i + zero_run (drop i gs)) else best)"
    have step: "find_zeros gs i best = find_zeros gs (Suc i) best'"
      using True by (subst find_zeros.simps) (simp add: Let_def best'_def)
    have "span_ok gs best'"
      using "1.prems" span_ok_run [OF True] by (simp add: best'_def)
    then have "span_ok gs (find_zeros gs (Suc i) best')"
      using "1.IH" [OF True refl] unfolding best'_def by simp
    then show ?thesis
      by (simp only: step)
  qed
qed

lemma find_zeros_shape:
  assumes "length gs = 8"
  defines "z \<equiv> find_zeros gs 0 (255, 255)"
  shows "fst z = 255 \<or>
         (fst z + 2 \<le> snd z \<and> snd z \<le> 8 \<and>
          gs = take (fst z) gs @ replicate (snd z - fst z) 0 @ drop (snd z) gs)"
proof -
  have ok: "span_ok gs z"
    unfolding z_def by (rule find_zeros_span_ok) (simp add: span_ok_def)
  show ?thesis
  proof (cases "z = (255, 255)")
    case True
    then show ?thesis by simp
  next
    case False
    with ok have a: "fst z + 2 \<le> snd z" and b: "snd z \<le> length gs"
      and c: "take (snd z - fst z) (drop (fst z) gs) = replicate (snd z - fst z) 0"
      by (simp_all add: span_ok_def)
    have "drop (snd z - fst z) (drop (fst z) gs) = drop (snd z) gs"
      using a by simp
    then have "gs = take (fst z) gs @ take (snd z - fst z) (drop (fst z) gs) @ drop (snd z) gs"
      by (metis append_take_drop_id)
    then show ?thesis
      using a b c assms(1) by simp
  qed
qed

subsection \<open>Groups and bytes\<close>

lemma of_nat_256_byte: "(of_nat (256 * n + m) :: byte) = of_nat m"
  by (simp only: word_of_nat_eq_iff) (simp add: take_bit_eq_mod)

lemma group_bytes_pair: "group_bytes (256 * unat a + unat b) = [a, b]"
proof -
  have "(256 * unat a + unat b) div 256 = unat a"
    using unat_byte [of b] by simp
  then show ?thesis
    by (simp add: group_bytes_def of_nat_256_byte del: of_nat_add of_nat_mult)
qed

lemma group_bound: "256 * unat (a :: byte) + unat (b :: byte) < 65536"
  using unat_byte [of a] unat_byte [of b] by simp

lemma length16:
  assumes "length (ip :: byte list) = 16"
  obtains a0 a1 a2 a3 a4 a5 a6 a7 a8 a9 a10 a11 a12 a13 a14 a15
  where "ip = [a0, a1, a2, a3, a4, a5, a6, a7, a8, a9, a10, a11, a12, a13, a14, a15]"
  using assms by (auto simp: eval_nat_numeral length_Suc_conv)

lemma upt8: "[0..<8] = [0, 1, 2, 3, 4, 5, 6, 7]"
  by (simp add: upt_rec)

lemma groups_bytes:
  assumes "length ip = 16"
  shows "concat (map group_bytes (groups ip)) = ip"
proof -
  from assms obtain a0 a1 a2 a3 a4 a5 a6 a7 a8 a9 a10 a11 a12 a13 a14 a15
    where ip: "ip = [a0, a1, a2, a3, a4, a5, a6, a7, a8, a9, a10, a11, a12, a13, a14, a15]"
    by (rule length16)
  show ?thesis
    unfolding ip groups_def upt8 v6u16_def
    by (simp add: group_bytes_pair del: of_nat_add of_nat_mult)
qed

lemma groups_bound: "list_all (\<lambda>g. g < 65536) (groups ip)"
  by (simp add: groups_def upt8 v6u16_def group_bound)

lemma length_groups [simp]: "length (groups ip) = 8"
  by (simp add: groups_def)

lemma group_bytes_zeros: "concat (replicate k (group_bytes 0)) = replicate (2 * k) 0"
  by (induction k) (simp_all add: group_bytes_def)

subsection \<open>The text of groups\<close>

lemma join6_chars:
  assumes "list_all (\<lambda>g. g < 65536) gs" and "c \<in> set (join6 gs)"
  shows "c = 0x3A \<or> (\<exists>d<16. c = hexdigit d)"
  using assms
proof (induction gs rule: join6.induct)
  case 1
  then show ?case by simp
next
  case (2 g)
  then show ?case
    using appendHex_digits [of g c] by simp
next
  case (3 g h gs)
  then show ?case
    using appendHex_digits [of g c] by (auto simp: ascii_def)
qed

lemma join6_no_percent:
  assumes "list_all (\<lambda>g. g < 65536) gs"
  shows "0x25 \<notin> set (join6 gs)"
  using join6_chars [OF assms, of "0x25"] hexdigit_plain by auto

lemma join6_nonempty: "gs \<noteq> [] \<Longrightarrow> join6 gs \<noteq> []"
  by (cases gs) (simp_all add: join6_Cons appendHex_nonempty)

lemma join6_hd:
  assumes "gs \<noteq> []" and "list_all (\<lambda>g. g < 65536) gs"
  shows "hd (join6 gs @ t) \<noteq> 0x3A"
proof -
  from assms obtain g gs' where gs: "gs = g # gs'" and g: "g < 65536"
    by (cases gs) auto
  obtain c r where "join6 (g # gs') @ t = c # r" and "c \<noteq> 0x3A"
    using join6_head [OF g] by blast
  then show ?thesis
    by (simp add: gs)
qed

lemma join6_first_colon:
  assumes "gs \<noteq> []" and "list_all (\<lambda>g. g < 65536) gs"
  obtains p r where "join6 gs @ 0x3A # t = p @ 0x3A # r"
    and "list_all (\<lambda>c. c \<noteq> 0x2E \<and> c \<noteq> 0x3A \<and> c \<noteq> 0x25) p"
proof -
  from assms obtain g gs' where gs: "gs = g # gs'" and g: "g < 65536"
    by (cases gs) auto
  have "join6 gs @ 0x3A # t
      = appendHex g @ 0x3A # (if gs' = [] then t else join6 gs' @ 0x3A # t)"
    by (simp add: gs join6_Cons)
  with appendHex_plain [OF g] show ?thesis
    using that by blast
qed

subsection \<open>Parsing the text of an IPv6 address\<close>

lemma finish6_Some [simp]:
  "finish6 (Some (ip, ellipsis, rest)) =
     (if rest \<noteq> [] then None
      else if length ip < 16 then
        (case ellipsis of
           None \<Rightarrow> None
         | Some e \<Rightarrow> Some (take e ip @ replicate (16 - length ip) 0 @ drop e ip))
      else if ellipsis \<noteq> None then None
      else Some ip)"
  by (simp add: finish6_def)

lemma parseIPv6_lead:
  "0x25 \<notin> set r \<Longrightarrow>
   parseIPv6 (0x3A # 0x3A # r)
     = (if r = [] then Some (replicate 16 0) else finish6 (parse6_loop r [] (Some 0)))"
  by (simp add: parseIPv6_def)

lemma parseIPv6_nolead:
  assumes "0x25 \<notin> set s" and "s \<noteq> []" and "hd s \<noteq> 0x3A"
  shows "parseIPv6 s = finish6 (parse6_loop s [] None)"
proof -
  have "s ! 0 = hd s"
    using assms(2) by (simp add: hd_conv_nth)
  with assms show ?thesis
    by (simp add: parseIPv6_def)
qed

lemma parseIPv6_compressed:
  assumes "list_all (\<lambda>g. g < 65536) pre" and "list_all (\<lambda>g. g < 65536) post"
    and "1 \<le> k" and "length pre + k + length post = 8"
  shows "parseIPv6 (join6 pre @ 0x3A # 0x3A # join6 post)
       = Some (concat (map group_bytes pre) @ replicate (2 * k) 0 @ concat (map group_bytes post))"
proof -
  let ?s = "join6 pre @ 0x3A # 0x3A # join6 post"
  have np: "0x25 \<notin> set ?s" "0x25 \<notin> set (join6 post)"
    using join6_no_percent [OF assms(1)] join6_no_percent [OF assms(2)] by simp_all
  show ?thesis
  proof (cases pre)
    case Nil
    show ?thesis
    proof (cases post)
      case pn: Nil
      with Nil assms(4) have "k = 8" by simp
      with Nil pn show ?thesis
        by (simp add: parseIPv6_lead)
    next
      case (Cons h t)
      then have ne: "join6 post \<noteq> []" "post \<noteq> []"
        using join6_nonempty [of post] by simp_all
      have lp: "length post < 8" "16 - 2 * length post = 2 * k"
        using assms(3,4) Nil by simp_all
      have "parse6_loop (join6 post) [] (Some 0)
          = Some ([] @ concat (map group_bytes post), Some 0, [])"
        using assms(2) lp ne by (intro parse6_join6) simp_all
      then have "finish6 (parse6_loop (join6 post) [] (Some 0))
          = Some (replicate (2 * k) 0 @ concat (map group_bytes post))"
        using lp by simp
      then show ?thesis
        using np(2) ne Nil by (simp add: parseIPv6_lead)
    qed
  next
    case (Cons g gs)
    then have pne: "pre \<noteq> []" by simp
    have sne: "?s \<noteq> []" by simp
    have hd: "hd ?s \<noteq> 0x3A"
      using join6_hd [OF pne assms(1)] .
    have lens: "2 * length pre + 2 * length post < 16"
      "16 - (2 * length pre + 2 * length post) = 2 * k" "2 * length pre \<le> 16"
      using assms(3,4) by simp_all
    have rest: "join6 post = [] \<or> hd (join6 post) \<noteq> 0x3A"
      using join6_hd [of post "[]"] assms(2) by (cases "post = []") simp_all
    have e: "parse6_loop ?s [] None
           = (if join6 post = []
              then Some ([] @ concat (map group_bytes pre), Some (length ([] :: byte list) + 2 * length pre), [])
              else parse6_loop (join6 post) ([] @ concat (map group_bytes pre))
                     (Some (length ([] :: byte list) + 2 * length pre)))"
      using pne assms(1) lens rest by (intro parse6_join6_ellipsis) simp_all
    have "parse6_loop ?s [] None
          = Some (concat (map group_bytes pre) @ concat (map group_bytes post),
                  Some (2 * length pre), [])"
    proof (cases post)
      case pn: Nil
      with e show ?thesis
        by simp
    next
      case pc: (Cons h t)
      then have ne: "join6 post \<noteq> []" "post \<noteq> []"
        using join6_nonempty [of post] by simp_all
      have "parse6_loop (join6 post) (concat (map group_bytes pre)) (Some (2 * length pre))
          = Some (concat (map group_bytes pre) @ concat (map group_bytes post),
                  Some (2 * length pre), [])"
        using assms(2) lens ne by (intro parse6_join6) simp_all
      with e ne show ?thesis
        by simp
    qed
    then have "finish6 (parse6_loop ?s [] None)
        = Some (concat (map group_bytes pre) @ replicate (2 * k) 0 @ concat (map group_bytes post))"
      using lens by simp
    then show ?thesis
      unfolding parseIPv6_nolead [OF np(1) sne hd] .
  qed
qed

lemma parseIPv6_full:
  assumes "list_all (\<lambda>g. g < 65536) gs" and "length gs = 8"
  shows "parseIPv6 (join6 gs) = Some (concat (map group_bytes gs))"
proof -
  have ne: "gs \<noteq> []" using assms(2) by auto
  have "parse6_loop (join6 gs) [] None = Some ([] @ concat (map group_bytes gs), None, [])"
    using ne assms by (intro parse6_join6) simp_all
  then have "finish6 (parse6_loop (join6 gs) [] None) = Some (concat (map group_bytes gs))"
    using assms(2) by simp
  then show ?thesis
    using parseIPv6_nolead [OF join6_no_percent [OF assms(1)] join6_nonempty [OF ne]]
      join6_hd [OF ne assms(1), of "[]"]
    by simp
qed

lemma parseIPv6_string6:
  assumes "length ip = 16"
  shows "parseIPv6 (string6 ip) = Some ip"
proof -
  define gs where "gs = groups ip"
  define z where "z = find_zeros gs 0 (255, 255)"
  have b: "list_all (\<lambda>g. g < 65536) gs" and l: "length gs = 8"
    and ip: "concat (map group_bytes gs) = ip"
    by (simp_all add: gs_def groups_bound groups_bytes assms)
  have s6: "string6 ip = (if fst z = 255 then join6 gs
      else join6 (take (fst z) gs) @ 0x3A # 0x3A # join6 (drop (snd z) gs))"
    by (simp add: string6_def Let_def gs_def z_def ascii_def)
  show ?thesis
  proof (cases "fst z = 255")
    case True
    then show ?thesis
      using parseIPv6_full [OF b l] by (simp add: s6 ip)
  next
    case False
    with find_zeros_shape [OF l] have a: "fst z + 2 \<le> snd z" and c: "snd z \<le> 8"
      and g: "gs = take (fst z) gs @ replicate (snd z - fst z) 0 @ drop (snd z) gs"
      by (simp_all add: z_def)
    have bp: "list_all (\<lambda>g. g < 65536) (take (fst z) gs)"
      "list_all (\<lambda>g. g < 65536) (drop (snd z) gs)"
      using b by (auto simp: list_all_iff dest: in_set_takeD in_set_dropD)
    have "parseIPv6 (join6 (take (fst z) gs) @ 0x3A # 0x3A # join6 (drop (snd z) gs))
        = Some (concat (map group_bytes (take (fst z) gs)) @ replicate (2 * (snd z - fst z)) 0
                @ concat (map group_bytes (drop (snd z) gs)))"
      using a c l by (intro parseIPv6_compressed bp) simp_all
    also have "\<dots> = Some (concat (map group_bytes
                 (take (fst z) gs @ replicate (snd z - fst z) 0 @ drop (snd z) gs)))"
      by (simp add: group_bytes_zeros)
    also have "\<dots> = Some ip"
      using g ip by simp
    finally show ?thesis
      using False by (simp add: s6)
  qed
qed

subsection \<open>ParseIP after String\<close>

lemma parseAddr_colon:
  assumes "list_all (\<lambda>c. c \<noteq> 0x2E \<and> c \<noteq> 0x3A \<and> c \<noteq> 0x25) p"
  shows "parseAddr (p @ 0x3A # r) s = parseIPv6 s"
  by (simp add: parseAddr_skip [OF assms])

lemma string6_first_colon:
  assumes "length ip = 16"
  obtains p r where "string6 ip = p @ 0x3A # r"
    and "list_all (\<lambda>c. c \<noteq> 0x2E \<and> c \<noteq> 0x3A \<and> c \<noteq> 0x25) p"
proof -
  define gs where "gs = groups ip"
  define z where "z = find_zeros gs 0 (255, 255)"
  have b: "list_all (\<lambda>g. g < 65536) gs" and l: "length gs = 8"
    by (simp_all add: gs_def groups_bound)
  have s6: "string6 ip = (if fst z = 255 then join6 gs
      else join6 (take (fst z) gs) @ 0x3A # 0x3A # join6 (drop (snd z) gs))"
    by (simp add: string6_def Let_def gs_def z_def ascii_def)
  show ?thesis
  proof (cases "fst z = 255")
    case True
    from l obtain g gs' where gs: "gs = g # gs'" and ne: "gs' \<noteq> []"
      by (cases gs; cases "tl gs") auto
    from b gs have g: "g < 65536" by simp
    have "string6 ip = appendHex g @ 0x3A # join6 gs'"
      using True ne by (simp add: s6 gs join6_Cons)
    with appendHex_plain [OF g] show ?thesis
      using that by blast
  next
    case False
    show ?thesis
    proof (cases "take (fst z) gs = []")
      case True
      have "string6 ip = join6 [] @ 0x3A # 0x3A # join6 (drop (snd z) gs)"
        using False by (simp only: s6 True if_False)
      then have "string6 ip = [] @ 0x3A # 0x3A # join6 (drop (snd z) gs)"
        by simp
      then show ?thesis
        using that [of "[]"] by simp
    next
      case ne: False
      have bp: "list_all (\<lambda>g. g < 65536) (take (fst z) gs)"
        using b by (auto simp: list_all_iff dest: in_set_takeD)
      obtain p r where "join6 (take (fst z) gs) @ 0x3A # 0x3A # join6 (drop (snd z) gs) = p @ 0x3A # r"
        and "list_all (\<lambda>c. c \<noteq> 0x2E \<and> c \<noteq> 0x3A \<and> c \<noteq> 0x25) p"
        using join6_first_colon [OF ne bp] by blast
      with False show ?thesis
        using that by (simp add: s6)
    qed
  qed
qed

lemma ParseIP_string6:
  assumes "length ip = 16"
  shows "ParseIP (string6 ip) = ip"
proof -
  obtain p r where s: "string6 ip = p @ 0x3A # r"
    and pl: "list_all (\<lambda>c. c \<noteq> 0x2E \<and> c \<noteq> 0x3A \<and> c \<noteq> 0x25) p"
    using string6_first_colon [OF assms] by blast
  have "parseAddr (p @ 0x3A # r) (string6 ip) = parseIPv6 (string6 ip)"
    by (rule parseAddr_colon [OF pl])
  then have "parseAddr (string6 ip) (string6 ip) = parseIPv6 (string6 ip)"
    by (simp only: s [symmetric])
  then show ?thesis
    by (simp add: ParseIP_def parseIPv6_string6 [OF assms])
qed

lemma length4:
  assumes "length (ip :: byte list) = 4"
  obtains a b c d where "ip = [a, b, c, d]"
  using assms by (auto simp: eval_nat_numeral length_Suc_conv)

lemma To4_mapped:
  assumes "length ip = 16" and "length (To4 ip) = 4"
  shows "ip = v4InV6Prefix @ To4 ip"
proof -
  from assms have m: "take 10 ip = replicate 10 0" "ip ! 10 = 0xff" "ip ! 11 = 0xff"
    and t: "To4 ip = drop 12 ip"
    by (auto simp: To4_def split: if_splits)
  from assms(1) obtain a0 a1 a2 a3 a4 a5 a6 a7 a8 a9 a10 a11 a12 a13 a14 a15
    where ip: "ip = [a0, a1, a2, a3, a4, a5, a6, a7, a8, a9, a10, a11, a12, a13, a14, a15]"
    by (rule length16)
  have "ip = v4InV6Prefix @ drop 12 ip"
    using m unfolding ip v4InV6Prefix_def
    by (simp add: eval_nat_numeral)
  then show ?thesis
    by (simp only: t)
qed

lemma ParseIP_String:
  assumes "length ip = 4 \<or> length ip = 16"
  shows "ParseIP (ip_String ip) = To16 ip"
proof (cases "length ip = 4")
  case True
  then obtain a b c d where ip: "ip = [a, b, c, d]"
    by (rule length4)
  show ?thesis
    by (simp add: ip ip_String_def To4_def To16_def ParseIP_string4)
next
  case False
  with assms have l: "length ip = 16" by simp
  show ?thesis
  proof (cases "length (To4 ip) = 4")
    case True
    then obtain a b c d where t: "To4 ip = [a, b, c, d]"
      by (rule length4)
    have "ParseIP (ip_String ip) = v4InV6Prefix @ To4 ip"
      using l True by (simp add: ip_String_def t ParseIP_string4)
    also have "\<dots> = ip"
      using To4_mapped [OF l True] by simp
    finally show ?thesis
      using l by (simp add: To16_def)
  next
    case nm: False
    with l show ?thesis
      by (simp add: ip_String_def To16_def ParseIP_string6)
  qed
qed

lemma To4_To16:
  assumes "length ip = 4"
  shows "To4 (To16 ip) = ip"
  using assms by (simp add: To4_def To16_def v4InV6Prefix_def nth_append)

lemma To16_To16:
  assumes "length ip = 16"
  shows "To16 (To16 ip) = ip"
  using assms by (simp add: To16_def)

section \<open>Properties of the address codec\<close>

lemma To4_ParseIP_String: "length v = 4 \<Longrightarrow> To4 (ParseIP (ip_String v)) = v"
  by (simp add: ParseIP_String To4_To16)

lemma To16_ParseIP_String: "length v = 16 \<Longrightarrow> To16 (ParseIP (ip_String v)) = v"
  by (simp add: ParseIP_String To16_To16)

lemma length_PutUint16 [simp]: "length (PutUint16 p) = 2"
  by (simp add: PutUint16_def)

lemma buildUDPReply_wire:
  assumes "valid_target atyp v"
  shows "buildUDPReply (addr_text atyp v) port atyp body
       = [0, 0, 0, atyp] @ addr_wire atyp v @ PutUint16 port @ body"
  using assms
  by (auto simp: valid_target_def buildUDPReply_def addr_text_def addr_wire_def socks_consts
      To4_ParseIP_String To16_ParseIP_String)

lemma decodeTarget_v4:
  assumes "length v = 4"
  shows "decodeTarget ([0, 0, 0, ipv4Address] @ v @ PutUint16 port @ body)
       = Some (Inr \<lparr>addrType = ipv4Address, targetAddr = ip_String v, headerLen = 10,
                    targetPort = port, payload = body\<rparr>)"
proof -
  let ?data = "[0, 0, 0, ipv4Address] @ v @ PutUint16 port @ body"
  have i3: "index_at ?data 3 = Some ipv4Address"
    by (simp add: index_at_def)
  have sl: "slice_of ?data 4 8 = Some v"
    using assms by (simp add: slice_of_def)
  have ex: "extractRest ?data ipv4Address (ip_String v) 10
      = Some (Inr \<lparr>addrType = ipv4Address, targetAddr = ip_String v, headerLen = 10,
                  targetPort = port, payload = body\<rparr>)"
    using extractRest_in_bounds [of 10 ?data ipv4Address "ip_String v"] assms
    by (simp add: Uint16_PutUint16)
  have len: "\<not> length ?data < 10"
    using assms by simp
  have "decodeTarget ?data = extractRest ?data ipv4Address (ip_String v) 10"
    unfolding decodeTarget_def i3 using len sl by simp
  then show ?thesis
    by (simp only: ex)
qed

lemma decodeTarget_v6:
  assumes "length v = 16"
  shows "decodeTarget ([0, 0, 0, ipv6Address] @ v @ PutUint16 port @ body)
       = Some (Inr \<lparr>addrType = ipv6Address, targetAddr = ip_String v, headerLen = 22,
                    targetPort = port, payload = body\<rparr>)"
proof -
  let ?data = "[0, 0, 0, ipv6Address] @ v @ PutUint16 port @ body"
  have i3: "index_at ?data 3 = Some ipv6Address"
    by (simp add: index_at_def)
  have sl: "slice_of ?data 4 20 = Some v"
    using assms by (simp add: slice_of_def)
  have ex: "extractRest ?data ipv6Address (ip_String v) 22
      = Some (Inr \<lparr>addrType = ipv6Address, targetAddr = ip_String v, headerLen = 22,
                  targetPort = port, payload = body\<rparr>)"
    using extractRest_in_bounds [of 22 ?data ipv6Address "ip_String v"] assms
    by (simp add: Uint16_PutUint16)
  have len: "\<not> length ?data < 22"
    using assms by simp
  have ne: "ipv6Address \<noteq> ipv4Address" "ipv6Address \<noteq> domainName"
    by (simp_all add: socks_consts)
  have "decodeTarget ?data = extractRest ?data ipv6Address (ip_String v) 22"
    unfolding decodeTarget_def i3 using len sl ne by simp
  then show ?thesis
    by (simp only: ex)
qed

lemma decodeTarget_domain:
  assumes "length v \<le> 255"
  shows "decodeTarget ([0, 0, 0, domainName] @ (of_nat (length v) # v) @ PutUint16 port @ body)
       = Some (Inr \<lparr>addrType = domainName, targetAddr = v, headerLen = 7 + length v,
                    targetPort = port, payload = body\<rparr>)"
proof -
  let ?data = "[0, 0, 0, domainName] @ (of_nat (length v) # v) @ PutUint16 port @ body"
  have i3: "index_at ?data 3 = Some domainName"
    by (simp add: index_at_def)
  have n: "unat (of_nat (length v) :: byte) = length v"
    using assms by (intro unat_of_nat_byte) simp
  have i4: "index_at ?data 4 = Some (of_nat (length v))"
    by (simp add: index_at_def)
  have sl: "slice_of ?data 5 (5 + length v) = Some v"
    by (simp add: slice_of_def)
  have ex: "extractRest ?data domainName v (7 + length v)
      = Some (Inr \<lparr>addrType = domainName, targetAddr = v, headerLen = 7 + length v,
                  targetPort = port, payload = body\<rparr>)"
    using extractRest_in_bounds [of "7 + length v" ?data domainName v]
    by (simp add: Uint16_PutUint16 drop_Cons' PutUint16_def [of port])
       (simp add: Uint16_PutUint16 [of port, unfolded PutUint16_def])
  have len: "\<not> length ?data < 5" "\<not> length ?data < 7 + length v"
    by simp_all
  have ne: "domainName \<noteq> ipv4Address"
    by (simp add: socks_consts)
  have "decodeTarget ?data = extractRest ?data domainName v (7 + length v)"
    unfolding decodeTarget_def i3 i4 using len sl ne by (simp add: n Let_def)
  then show ?thesis
    by (simp only: ex)
qed

lemma decodeTarget_wire:
  assumes "valid_target atyp v"
  shows "decodeTarget ([0, 0, 0, atyp] @ addr_wire atyp v @ PutUint16 port @ body)
       = Some (Inr \<lparr>addrType = atyp, targetAddr = addr_text atyp v,
                    headerLen = 4 + length (addr_wire atyp v) + 2,
                    targetPort = port, payload = body\<rparr>)"
proof -
  consider (v4) "atyp = ipv4Address" "length v = 4"
    | (v6) "atyp = ipv6Address" "length v = 16"
    | (dom) "atyp = domainName" "1 \<le> length v" "length v \<le> 255"
    using assms by (auto simp: valid_target_def)
  then show ?thesis
  proof cases
    case v4
    have ne: "ipv4Address \<noteq> domainName"
      by (simp add: socks_consts)
    show ?thesis
      unfolding v4(1) using decodeTarget_v4 [OF v4(2), of port body] v4(2)
      by (simp add: addr_wire_def addr_text_def ne)
  next
    case v6
    have ne: "ipv6Address \<noteq> domainName"
      by (simp add: socks_consts)
    show ?thesis
      unfolding v6(1) using decodeTarget_v6 [OF v6(2), of port body] v6(2)
      by (simp add: addr_wire_def addr_text_def ne)
  next
    case dom
    show ?thesis
      unfolding dom(1) using decodeTarget_domain [OF dom(3), of port body]
      by (simp add: addr_wire_def addr_text_def)
  qed
qed

text \<open>
  The parser of \<^verbatim>\<open>processUDPPacket\<close> decodes every encoded envelope of at least
  10 bytes to the address type, address, port and payload it was encoded from: any four
  bytes as IPv4, any sixteen bytes as IPv6, any domain name of 1 to 255 bytes.
\<close>

lemma envelope_round_trip:
  assumes "valid_target atyp v" and "10 \<le> 6 + length (addr_wire atyp v) + length body"
  shows "parseUDPPacket (buildUDPReply (addr_text atyp v) port atyp body)
       = Some (Inr \<lparr>addrType = atyp, targetAddr = addr_text atyp v,
                    headerLen = 4 + length (addr_wire atyp v) + 2,
                    targetPort = port, payload = body\<rparr>)"
proof -
  let ?data = "[0, 0, 0, atyp] @ addr_wire atyp v @ PutUint16 port @ body"
  have len: "\<not> length ?data < 10"
    using assms(2) by simp
  have "parseUDPPacket ?data = decodeTarget ?data"
    unfolding parseUDPPacket_def using len by (simp add: index_at_def)
  then show ?thesis
    by (simp only: buildUDPReply_wire [OF assms(1)] decodeTarget_wire [OF assms(1)])
qed

text \<open>
  Claim C7. Decoding the wire bytes produced by encoding an address and a port should
  yield the address and the port, for domain names of one byte too. It does not: the
  domain name of one byte \<open>a\<close> with port 53 is encoded by \<^verbatim>\<open>buildUDPReply\<close> in
  8 bytes, or 9 bytes with a payload of one byte, and the domain name of two bytes in 9
  bytes, and the first length check of \<^verbatim>\<open>processUDPPacket\<close>, which is the IPv4
  minimum of 10 bytes applied to every address type, drops these as too short before
  the address is decoded, although the address decoder alone returns the address and
  the port.
\<close>

theorem short_domain_round_trip_fails:
  "valid_target 0x03 [0x61]
   \<and> buildUDPReply (addr_text 0x03 [0x61]) 53 0x03 [] = [0, 0, 0, 3, 1, 0x61, 0, 53]
   \<and> parseUDPPacket (buildUDPReply (addr_text 0x03 [0x61]) 53 0x03 []) = Some (Inl TooShort)
   \<and> parseUDPPacket (buildUDPReply (addr_text 0x03 [0x61]) 53 0x03 [7]) = Some (Inl TooShort)
   \<and> parseUDPPacket (buildUDPReply (addr_text 0x03 [0x61, 0x62]) 53 0x03 [])
       = Some (Inl TooShort)
   \<and> decodeTarget (buildUDPReply (addr_text 0x03 [0x61]) 53 0x03 [])
       = Some (Inr \<lparr>addrType = 0x03, targetAddr = [0x61], headerLen = 8,
                    targetPort = 53, payload = []\<rparr>)"
  by (simp add: udp_eval_defs socks_consts valid_target_def addr_text_def buildUDPReply_def
      PutUint16_def)

section \<open>Properties of the datagram relay\<close>





subsection \<open>Runs of the receive loop\<close>










lemmas relay_eval_defs =
  handleUDPRelay_def relay_start_def packet_of_def parse_stage_def forwardUDP_def
  no_datagram_def buildUDPReply_def PutUint16_def




text \<open>
  When the loop receives a second datagram before the handler of the first has read the
  buffer, that handler parses and forwards the bytes of the second: the payload of the
  second packet goes to the destination of the second packet, and the answer goes to
  the client of the first, under the destination of the second.
\<close>

lemma shared_buffer_race:
  "h_sent (handlers (handleUDPRelay
       \<lparr>resolveUDPAddr = (\<lambda>t. Some t), dialUDP = (\<lambda>d. True),
          writeTarget = (\<lambda>d p. True), readTarget = (\<lambda>d p. Some [0x50, 0x4F]),
          writeClient = (\<lambda>c b. True)\<rparr>
       [Receive [0, 0, 0, 3, 3, 0x61, 0x62, 0x63, 0, 53, 7] (1 :: nat),
        Receive [0, 0, 0, 3, 3, 0x78, 0x79, 0x7A, 0, 80, 9] 2, Parse 0, Forward 0]
       relay_start) ! 0)
     = \<lparr>to_target = [(ascii ''xyz:80'', [9])],
        to_client = [(1, [0, 0, 0, 3, 3, 0x78, 0x79, 0x7A, 0, 80, 0x50, 0x4F])]\<rparr>"
proof -
  have p: "parseUDPPacket [0, 0, 0, 3, 3, 0x78, 0x79, 0x7A, 0, 80, 9]
      = Some (Inr \<lparr>addrType = 3, targetAddr = [0x78, 0x79, 0x7A], headerLen = 10,
                   targetPort = 80, payload = [9]\<rparr>)"
    by (simp add: udp_eval_defs socks_consts)
  have t: "(0x78 :: byte) # 0x79 # 0x7A # ascii '':'' @ decimal 80 = ascii ''xyz:80''"
    by (simp add: ascii_def decimal.simps [of 80] decimal.simps [of 8] digit_def)
  show ?thesis
    by (simp add: p t relay_eval_defs Let_def socks_consts)
qed

end
